theory Spec2Isabelle
  imports Main
begin

section \<open>Data model\<close>

text \<open>
  The rows of the five tables that \<open>DatabaseOperations\<close> reads and writes. Identifiers
  (UUIDs, session ids) are natural numbers: the operations only compare them for equality.
  Timestamps are seconds on the wall clock. Scenes and inventory items are opaque payloads.
\<close>

type_synonym uuid = nat
type_synonym scene = string

record user =
  u_id :: uuid
  u_email :: string
  u_password :: string
  u_is_active :: bool
  u_first_name :: "string option"
  u_last_name :: "string option"
  u_created_at :: nat

record email_token =
  et_email :: string
  et_password :: string
  et_token :: string
  et_created_at :: nat

record access_token =
  at_token :: string
  at_expires_at :: string
  at_user_id :: uuid

record game_session =
  gs_id :: uuid
  gs_user_id :: uuid
  gs_last_image :: string
  gs_protagonist_name :: string
  gs_session_name :: string
  gs_inventory :: "string list"
  gs_stories :: "scene list"
  gs_updated_at :: nat

record starting_story =
  ss_id :: string
  ss_story :: "string option"
  ss_image :: "string option"

record db =
  users :: "user list"
  email_tokens :: "email_token list"
  access_tokens :: "access_token list"
  game_sessions :: "game_session list"
  starting_stories :: "starting_story list"

text \<open>
  The SQLAlchemy session \<open>self.db\<close>: \<open>work\<close> is the view of the open transaction,
  \<open>durable\<close> the last committed snapshot and \<open>past\<close> the snapshots committed before it
  (newest first). \<open>draws\<close> counts the random values drawn so far, \<open>clock\<close> is
  \<open>datetime.now()\<close>.
\<close>

record session =
  work :: db
  durable :: db
  past :: "db list"
  draws :: nat
  clock :: nat

text \<open>
  Every \<open>raise\<close> of the source is a value: \<open>HTTPException status_code detail\<close> for the
  typed failures, the other constructors for the exceptions that escape untyped.
  \<open>DatabaseError\<close> is the error of a statement the database refuses to run.
\<close>

datatype error =
    HTTPException nat string
  | AttributeError
  | TypeError
  | IntegrityError
  | MultipleResultsFound
  | UnboundLocalError
  | DatabaseError

text \<open>
  The primitives the class calls as opaque functions: \<open>bcrypt.checkpw\<close>, the hasher behind
  \<open>_hash_password\<close>, the random strings behind \<open>generate_token\<close> and \<open>uuid.uuid4()\<close>.
  \<open>token_at n\<close> and \<open>uuid_at n\<close> are the values returned by the \<open>n\<close>-th draw.
\<close>

record prims =
  token_at :: "nat \<Rightarrow> string"
  uuid_at :: "nat \<Rightarrow> uuid"
  hash_pw :: "string \<Rightarrow> string"
  checkpw :: "string \<Rightarrow> string \<Rightarrow> bool"

text \<open>
  The bodies the source file gives for the two primitives it defines itself:
  \<open>generate_token\<close> returns the literal \<open>"Wouldn't you like to know!"\<close> and
  \<open>_hash_password\<close> the literal \<open>"Super secret"\<close>.
\<close>

definition src_token :: string where
  "src_token = ''Wouldn'' @ [CHR 0x27] @ ''t you like to know!''"

definition src_prims :: "(string \<Rightarrow> string \<Rightarrow> bool) \<Rightarrow> prims" where
  "src_prims chk =
     \<lparr>token_at = (\<lambda>_. src_token), uuid_at = (\<lambda>n. n),
      hash_pw = (\<lambda>_. ''Super secret''), checkpw = chk\<rparr>"

section \<open>The relational store\<close>

definition commit :: "session \<Rightarrow> session" where
  "commit s = s\<lparr>durable := work s, past := durable s # past s\<rparr>"

definition rollback :: "session \<Rightarrow> session" where
  "rollback s = s\<lparr>work := durable s\<rparr>"

text \<open>\<open>Result.scalar_one_or_none()\<close>: no row, the one row, or MultipleResultsFound.\<close>

fun scalar_one_or_none :: "'a list \<Rightarrow> error + 'a option" where
  "scalar_one_or_none [] = Inr None"
| "scalar_one_or_none [x] = Inr (Some x)"
| "scalar_one_or_none (x # y # zs) = Inl MultipleResultsFound"

definition generate_token :: "prims \<Rightarrow> session \<Rightarrow> string \<times> session" where
  "generate_token P s = (token_at P (draws s), s\<lparr>draws := Suc (draws s)\<rparr>)"

definition uuid4 :: "prims \<Rightarrow> session \<Rightarrow> uuid \<times> session" where
  "uuid4 P s = (uuid_at P (draws s), s\<lparr>draws := Suc (draws s)\<rparr>)"

definition hash_password :: "prims \<Rightarrow> string \<Rightarrow> string" where
  "hash_password P password = hash_pw P password"

text \<open>
  Modelled from the spec: the table declarations (\<open>app/api/v1/database/models.py\<close>) are
  not among the sources. A User has a unique id and a unique email; the handler in
  \<open>create_user\<close> catches the violation of either. An INSERT that would break a unique
  constraint raises IntegrityError and leaves the table as it was.
\<close>

definition insert_user :: "user \<Rightarrow> db \<Rightarrow> error + db" where
  "insert_user r d =
     (if u_id r \<in> set (map u_id (users d)) \<or> u_email r \<in> set (map u_email (users d))
      then Inl IntegrityError
      else Inr (d\<lparr>users := users d @ [r]\<rparr>))"

text \<open>
  Modelled from the spec: the table declarations are not among the sources. An EmailToken
  is keyed by its token string; the email is no key, so several EmailTokens of one email
  can stand side by side.
\<close>

definition insert_email_token :: "email_token \<Rightarrow> db \<Rightarrow> error + db" where
  "insert_email_token r d =
     (if et_token r \<in> set (map et_token (email_tokens d))
      then Inl IntegrityError
      else Inr (d\<lparr>email_tokens := email_tokens d @ [r]\<rparr>))"

text \<open>
  Modelled from the spec: the table declarations are not among the sources. An AccessToken
  is keyed by its token string.
\<close>

definition insert_access_token :: "access_token \<Rightarrow> db \<Rightarrow> error + db" where
  "insert_access_token r d =
     (if at_token r \<in> set (map at_token (access_tokens d))
      then Inl IntegrityError
      else Inr (d\<lparr>access_tokens := access_tokens d @ [r]\<rparr>))"

text \<open>
  Modelled from the spec: the table declarations are not among the sources. A GameSession
  has a unique id.
\<close>

definition insert_game_session :: "game_session \<Rightarrow> db \<Rightarrow> error + db" where
  "insert_game_session r d =
     (if gs_id r \<in> set (map gs_id (game_sessions d))
      then Inl IntegrityError
      else Inr (d\<lparr>game_sessions := game_sessions d @ [r]\<rparr>))"

text \<open>\<open>UPDATE ... WHERE p SET f\<close> on the rows of one table, in place.\<close>

definition update_where :: "('a \<Rightarrow> bool) \<Rightarrow> ('a \<Rightarrow> 'a) \<Rightarrow> 'a list \<Rightarrow> 'a list" where
  "update_where p f rows = map (\<lambda>r. if p r then f r else r) rows"

section \<open>Token manager: access tokens\<close>

definition logout_user :: "uuid \<Rightarrow> session \<Rightarrow> session" where
  "logout_user user_id s =
     commit (s\<lparr>work := (work s)\<lparr>access_tokens :=
       filter (\<lambda>t. at_user_id t \<noteq> user_id) (access_tokens (work s))\<rparr>\<rparr>)"

definition create_access_token :: "prims \<Rightarrow> uuid \<Rightarrow> session \<Rightarrow> (error + string) \<times> session" where
  "create_access_token P user_id s =
     (let s1 = logout_user user_id s;
          (token, s2) = generate_token P s1;
          expires_at = ''some unknown timestamp'';
          db_token = \<lparr>at_token = token, at_expires_at = expires_at, at_user_id = user_id\<rparr>
      in case insert_access_token db_token (work s2) of
           Inl e \<Rightarrow> (Inl e, s2)
         | Inr d \<Rightarrow> (Inr token, commit (s2\<lparr>work := d\<rparr>)))"

definition validate_token :: "string \<Rightarrow> session \<Rightarrow> error + uuid" where
  "validate_token token s =
     (case scalar_one_or_none (filter (\<lambda>t. at_token t = token) (access_tokens (work s))) of
        Inl e \<Rightarrow> Inl e
      | Inr None \<Rightarrow> Inl (HTTPException 401 ''Invalid token'')
      | Inr (Some token_data) \<Rightarrow> Inr (at_user_id token_data))"

section \<open>User manager\<close>

record UserCreate =
  uc_email :: string
  uc_password :: string

record UserLogin =
  ul_email :: string
  ul_password :: string

text \<open>
  Modelled from the spec: the schema \<open>UserUpdate\<close> (\<open>app/api/v1/validation/schemas.py\<close>) is
  not among the sources. It is a sparse update of the User attributes a profile carries;
  an absent field is \<open>None\<close>.
\<close>

record UserUpdate =
  uu_email :: "string option"
  uu_password :: "string option"
  uu_first_name :: "string option"
  uu_last_name :: "string option"

definition activate_user :: "uuid \<Rightarrow> session \<Rightarrow> (error + unit) \<times> session" where
  "activate_user user_id s =
     (let s1 = s\<lparr>work := (work s)\<lparr>users :=
                 update_where (\<lambda>u. u_id u = user_id) (\<lambda>u. u\<lparr>u_is_active := True\<rparr>) (users (work s))\<rparr>\<rparr>
      in case scalar_one_or_none (filter (\<lambda>u. u_id u = user_id) (users (work s1))) of
           Inl e \<Rightarrow> (Inl e, s1)
         | Inr updated_user \<Rightarrow>
             (let s2 = commit s1
              in case updated_user of
                   None \<Rightarrow> (Inl (HTTPException 404 ''User not found''), logout_user user_id s2)
                 | Some _ \<Rightarrow> (Inr (), s2)))"

definition deactivate_user :: "uuid \<Rightarrow> session \<Rightarrow> (error + unit) \<times> session" where
  "deactivate_user user_id s =
     (let s0 = logout_user user_id s;
          s1 = s0\<lparr>work := (work s0)\<lparr>users :=
                 update_where (\<lambda>u. u_id u = user_id) (\<lambda>u. u\<lparr>u_is_active := False\<rparr>) (users (work s0))\<rparr>\<rparr>
      in case scalar_one_or_none (filter (\<lambda>u. u_id u = user_id) (users (work s1))) of
           Inl e \<Rightarrow> (Inl e, s1)
         | Inr updated_user \<Rightarrow>
             (let s2 = commit s1
              in case updated_user of
                   None \<Rightarrow> (Inl (HTTPException 404 ''User not found''), s2)
                 | Some _ \<Rightarrow> (Inr (), s2)))"

text \<open>
  \<open>nud\<close> ("New-User-Data") keeps the fields that are not \<open>None\<close> and hashes the password;
  \<open>set_values\<close> is \<open>.values(**nud)\<close> on one row.
\<close>

definition nud :: "prims \<Rightarrow> UserUpdate \<Rightarrow> UserUpdate" where
  "nud P user = user\<lparr>uu_password := map_option (hash_password P) (uu_password user)\<rparr>"

definition set_values :: "UserUpdate \<Rightarrow> user \<Rightarrow> user" where
  "set_values n u =
     u\<lparr>u_email := (case uu_email n of None \<Rightarrow> u_email u | Some v \<Rightarrow> v),
       u_password := (case uu_password n of None \<Rightarrow> u_password u | Some v \<Rightarrow> v),
       u_first_name := (case uu_first_name n of None \<Rightarrow> u_first_name u | Some v \<Rightarrow> Some v),
       u_last_name := (case uu_last_name n of None \<Rightarrow> u_last_name u | Some v \<Rightarrow> Some v)\<rparr>"

text \<open>
  \<open>nud = {}\<close>: the request carries no field, and \<open>.values(**nud)\<close> sets nothing.
\<close>

definition no_values :: "UserUpdate \<Rightarrow> bool" where
  "no_values n = (uu_email n = None \<and> uu_password n = None \<and> uu_first_name n = None
                  \<and> uu_last_name n = None)"

text \<open>
  Modelled from the spec: the table declarations are not among the sources. The UPDATE of
  a User row that sets an email which another row holds breaks the unique constraint on
  the email and raises IntegrityError; an UPDATE that matches no row breaks nothing. An
  UPDATE that sets no column has an empty SET clause: the database refuses the statement
  when \<open>self.db.execute\<close> sends it, whatever rows it would match.
\<close>

definition update_user_rows :: "uuid \<Rightarrow> UserUpdate \<Rightarrow> db \<Rightarrow> error + db" where
  "update_user_rows user_id n d =
     (let rows = update_where (\<lambda>u. u_id u = user_id) (set_values n) (users d)
      in if no_values n then Inl DatabaseError
         else if uu_email n \<noteq> None \<and> filter (\<lambda>u. u_id u = user_id) (users d) \<noteq> []
            \<and> \<not> distinct (map u_email rows)
         then Inl IntegrityError
         else Inr (d\<lparr>users := rows\<rparr>))"

definition update_user :: "prims \<Rightarrow> uuid \<Rightarrow> UserUpdate \<Rightarrow> session \<Rightarrow> (error + user) \<times> session" where
  "update_user P user_id user s =
     (case update_user_rows user_id (nud P user) (work s) of
        Inl e \<Rightarrow> (Inl e, s)
      | Inr d \<Rightarrow>
          (let s1 = s\<lparr>work := d\<rparr>
           in case scalar_one_or_none (filter (\<lambda>u. u_id u = user_id) (users (work s1))) of
                Inl e \<Rightarrow> (Inl e, s1)
              | Inr updated_user \<Rightarrow>
                  (let s2 = commit s1
                   in case updated_user of
                        Some u \<Rightarrow> (Inr u, s2)
                      | None \<Rightarrow> (Inl (HTTPException 404 ''User not found''), logout_user user_id s2))))"

section \<open>Token manager: email tokens\<close>

text \<open>
  The character classes of \<open>email_pattern\<close>,
  \<open>^[a-zA-Z0-9._%+-]+@[a-zA-Z0-9.-]+\.[a-zA-Z]{2,}$\<close>.
\<close>

definition is_alpha :: "char \<Rightarrow> bool" where
  "is_alpha c = (let n = of_char c :: nat in (65 \<le> n \<and> n \<le> 90) \<or> (97 \<le> n \<and> n \<le> 122))"

definition is_digit :: "char \<Rightarrow> bool" where
  "is_digit c = (let n = of_char c :: nat in 48 \<le> n \<and> n \<le> 57)"

definition local_char :: "char \<Rightarrow> bool" where
  "local_char c = (is_alpha c \<or> is_digit c \<or> c \<in> set ''._%+-'')"

definition domain_char :: "char \<Rightarrow> bool" where
  "domain_char c = (is_alpha c \<or> is_digit c \<or> c \<in> set ''.-'')"

text \<open>
  \<open>re.match(email_pattern, email)\<close>. Neither class holds \<open>@\<close>, so the local part is the
  text before the first \<open>@\<close>; the last class holds no dot, so the top-level domain is the
  text after the last dot; \<open>$\<close> matches at the end and before a line feed that ends the
  string.
\<close>

definition validate_email :: "string \<Rightarrow> bool" where
  "validate_email email =
     (let local_part = takeWhile (\<lambda>c. c \<noteq> CHR ''@'') email;
          rest = drop 1 (dropWhile (\<lambda>c. c \<noteq> CHR ''@'') email);
          host = (if rest \<noteq> [] \<and> last rest = CHR 0x0A then butlast rest else rest);
          tld = rev (takeWhile (\<lambda>c. c \<noteq> CHR ''.'') (rev host));
          dom_part = rev (drop 1 (dropWhile (\<lambda>c. c \<noteq> CHR ''.'') (rev host)))
      in CHR ''@'' \<in> set email \<and> local_part \<noteq> [] \<and> list_all local_char local_part
         \<and> CHR ''.'' \<in> set host \<and> dom_part \<noteq> [] \<and> list_all domain_char dom_part
         \<and> 2 \<le> length tld \<and> list_all is_alpha tld)"

definition check_existing_user :: "string \<Rightarrow> session \<Rightarrow> error + bool" where
  "check_existing_user email s =
     (case scalar_one_or_none (filter (\<lambda>u. u_email u = email) (users (work s))) of
        Inl e \<Rightarrow> Inl e
      | Inr existing_user \<Rightarrow> Inr (existing_user \<noteq> None))"

definition delete_email_tokens :: "string \<Rightarrow> session \<Rightarrow> session" where
  "delete_email_tokens email s =
     commit (s\<lparr>work := (work s)\<lparr>email_tokens :=
       filter (\<lambda>r. et_email r \<noteq> email) (email_tokens (work s))\<rparr>\<rparr>)"

definition post_email_token :: "prims \<Rightarrow> UserCreate \<Rightarrow> session \<Rightarrow> (error + string) \<times> session" where
  "post_email_token P user s =
     (let hashed_pw = hash_password P (uc_password user);
          (token, s1) = generate_token P s;
          row = \<lparr>et_email = uc_email user, et_password = hashed_pw, et_token = token,
                 et_created_at = clock s1\<rparr>
      in case insert_email_token row (work s1) of
           Inl e \<Rightarrow> (Inl e, s1)
         | Inr d \<Rightarrow> (Inr token, commit (s1\<lparr>work := d\<rparr>)))"

definition create_email_token :: "prims \<Rightarrow> UserCreate \<Rightarrow> session \<Rightarrow> (error + string) \<times> session" where
  "create_email_token P user s =
     (if \<not> validate_email (uc_email user)
      then (Inl (HTTPException 400 ''Invalid email format''), s)
      else case check_existing_user (uc_email user) s of
             Inl e \<Rightarrow> (Inl e, s)
           | Inr True \<Rightarrow> (Inl (HTTPException 400 ''User with this email already exists''), s)
           | Inr False \<Rightarrow>
               (case post_email_token P user s of
                  (Inl IntegrityError, s1) \<Rightarrow>
                    post_email_token P user (delete_email_tokens (uc_email user) (rollback s1))
                | (Inl e, s1) \<Rightarrow> (Inl e, s1)
                | (Inr token, s1) \<Rightarrow> (Inr token, s1)))"

text \<open>The truth value Python gives a \<open>str\<close> in a condition: false for the empty string only.\<close>

definition truthy :: "string \<Rightarrow> bool" where
  "truthy x = (x \<noteq> [])"

definition validate_email_token :: "string \<Rightarrow> session \<Rightarrow> (error + email_token) \<times> session" where
  "validate_email_token token s =
     (case scalar_one_or_none (filter (\<lambda>r. et_token r = token) (email_tokens (work s))) of
        Inl e \<Rightarrow> (Inl e, s)
      | Inr None \<Rightarrow> (Inl (HTTPException 404 ''Token not found''), s)
      | Inr (Some user) \<Rightarrow>
          if truthy ''The token timestamp is too old''
          then (Inl (HTTPException 401 ''Token expired''), delete_email_tokens (et_email user) s)
          else (Inr user, s))"

text \<open>
  Modelled from the spec: the table declarations are not among the sources. The UPDATE of
  an EmailToken row that sets a token string another row holds breaks the key and raises
  IntegrityError; an UPDATE that matches no row breaks nothing.
\<close>

definition update_email_token_rows :: "string \<Rightarrow> string \<Rightarrow> nat \<Rightarrow> db \<Rightarrow> error + db" where
  "update_email_token_rows email new_token now d =
     (let rows = update_where (\<lambda>r. et_email r = email)
                   (\<lambda>r. r\<lparr>et_token := new_token, et_created_at := now\<rparr>) (email_tokens d)
      in if filter (\<lambda>r. et_email r = email) (email_tokens d) \<noteq> []
            \<and> \<not> distinct (map et_token rows)
         then Inl IntegrityError
         else Inr (d\<lparr>email_tokens := rows\<rparr>))"

definition update_email_token :: "prims \<Rightarrow> string \<Rightarrow> session \<Rightarrow> (error + string) \<times> session" where
  "update_email_token P email s =
     (case scalar_one_or_none (filter (\<lambda>r. et_email r = email) (email_tokens (work s))) of
        Inl e \<Rightarrow> (Inl e, s)
      | Inr None \<Rightarrow> (Inl (HTTPException 404 ''Email not registered''), s)
      | Inr (Some token_data) \<Rightarrow>
          (let (new_token, s1) = generate_token P s
           in case update_email_token_rows email new_token (clock s1) (work s1) of
                Inl e \<Rightarrow> (Inl e, s1)
              | Inr d \<Rightarrow> (Inr new_token, commit (s1\<lparr>work := d\<rparr>))))"

definition reset_password :: "prims \<Rightarrow> string \<Rightarrow> string \<Rightarrow> session \<Rightarrow> (error + email_token) \<times> session" where
  "reset_password P token password s =
     (case validate_email_token token s of
        (Inl e, s1) \<Rightarrow> (Inl e, s1)
      | (Inr user_data, s1) \<Rightarrow>
          (let hashed_pw = hash_password P password;
               s2 = commit (s1\<lparr>work := (work s1)\<lparr>users :=
                      update_where (\<lambda>u. u_email u = et_email user_data)
                        (\<lambda>u. u\<lparr>u_password := hashed_pw\<rparr>) (users (work s1))\<rparr>\<rparr>)
           in case update_email_token P (et_email user_data) s2 of
                (Inl e, s3) \<Rightarrow> (Inl e, s3)
              | (Inr _, s3) \<Rightarrow> (Inr user_data, s3)))"

section \<open>User manager: creation, login, deletion\<close>

text \<open>
  The loop \<open>for attempt in range(3)\<close> of \<open>create_user\<close>; the numeral counts the attempts
  that are left, so \<open>attempt == 2\<close> is the call with one attempt left. A new row is active
  and carries the time of its insertion.
\<close>

fun insert_new_user :: "prims \<Rightarrow> email_token \<Rightarrow> nat \<Rightarrow> session \<Rightarrow> (error + user) \<times> session" where
  "insert_new_user P user_data 0 s = (Inl UnboundLocalError, s)"
| "insert_new_user P user_data (Suc n) s =
     (let (new_id, s1) = uuid4 P s;
          db_user = \<lparr>u_id = new_id, u_email = et_email user_data,
                     u_password = et_password user_data, u_is_active = True,
                     u_first_name = None, u_last_name = None, u_created_at = clock s1\<rparr>
      in case insert_user db_user (work s1) of
           Inr d \<Rightarrow> (Inr db_user, commit (s1\<lparr>work := d\<rparr>))
         | Inl e \<Rightarrow>
             if n = 0
             then (Inl (HTTPException 500 ''User creation failed when posting to database.''), s1)
             else insert_new_user P user_data n s1)"

definition create_user :: "prims \<Rightarrow> string \<Rightarrow> session \<Rightarrow> (error + string) \<times> session" where
  "create_user P token s =
     (case validate_email_token token s of
        (Inl e, s1) \<Rightarrow> (Inl e, s1)
      | (Inr user_data, s1) \<Rightarrow>
          (case insert_new_user P user_data 3 s1 of
             (Inl e, s2) \<Rightarrow> (Inl e, s2)
           | (Inr db_user, s2) \<Rightarrow> create_access_token P (u_id db_user) s2))"

definition login_user :: "prims \<Rightarrow> UserLogin \<Rightarrow> session \<Rightarrow> (error + string) \<times> session" where
  "login_user P user s =
     (case scalar_one_or_none (filter (\<lambda>u. u_email u = ul_email user) (users (work s))) of
        Inl e \<Rightarrow> (Inl e, s)
      | Inr None \<Rightarrow> (Inl (HTTPException 404 ''User not found''), s)
      | Inr (Some db_user) \<Rightarrow>
          if \<not> checkpw P (ul_password user) (u_password db_user)
          then (Inl (HTTPException 401 ''Invalid credentials''), s)
          else (case (if \<not> u_is_active db_user then activate_user (u_id db_user) s
                      else (Inr (), s)) of
                  (Inl e, s1) \<Rightarrow> (Inl e, s1)
                | (Inr _, s1) \<Rightarrow> create_access_token P (u_id db_user) s1))"

definition hard_delete_user :: "uuid \<Rightarrow> session \<Rightarrow> (error + string) \<times> session" where
  "hard_delete_user user_id s =
     (case scalar_one_or_none (filter (\<lambda>u. u_id u = user_id) (users (work s))) of
        Inl e \<Rightarrow> (Inl e, s)
      | Inr None \<Rightarrow> (Inl AttributeError, s)
      | Inr (Some user) \<Rightarrow>
          (let email = u_email user;
               s1 = logout_user user_id s;
               rowcount = length (filter (\<lambda>u. u_id u = user_id) (users (work s1)));
               s2 = s1\<lparr>work := (work s1)\<lparr>users :=
                      filter (\<lambda>u. u_id u \<noteq> user_id) (users (work s1))\<rparr>\<rparr>
           in if rowcount = 0 then (Inl (HTTPException 404 ''User not found''), s2)
              else (Inr ''User deleted successfully'', delete_email_tokens email (commit s2))))"

section \<open>Game manager\<close>

record GameSession =
  gsi_id :: "uuid option"
  gsi_protagonist_name :: string
  gsi_session_name :: string
  gsi_inventory :: "string list"
  gsi_scenes :: "scene list"

record SaveGame =
  sg_game_session :: GameSession
  sg_image :: string

definition get_start_story :: "string \<Rightarrow> session \<Rightarrow> error + (string \<times> string \<times> string)" where
  "get_start_story story_id s =
     (case scalar_one_or_none (filter (\<lambda>r. ss_id r = story_id) (starting_stories (work s))) of
        Inl e \<Rightarrow> Inl e
      | Inr None \<Rightarrow> Inl AttributeError
      | Inr (Some starting_story) \<Rightarrow>
          (case (ss_story starting_story, ss_image starting_story) of
             (Some story, Some img) \<Rightarrow> Inr (img, story, ss_id starting_story)
           | _ \<Rightarrow> Inl (HTTPException 404 (''Story with ID '' @ story_id @ '' not found''))))"

text \<open>One entry of the list \<open>load_game\<close> returns.\<close>

record save_summary =
  sv_id :: uuid
  sv_protagonist_name :: string
  sv_inventory :: "string list"
  sv_session_name :: string
  sv_stories :: "scene list"
  sv_image :: string
  sv_last_played :: nat

definition load_game :: "uuid \<Rightarrow> session \<Rightarrow> save_summary list" where
  "load_game user_id s =
     map (\<lambda>save. \<lparr>sv_id = gs_id save, sv_protagonist_name = gs_protagonist_name save,
                   sv_inventory = gs_inventory save, sv_session_name = gs_session_name save,
                   sv_stories = gs_stories save, sv_image = gs_last_image save,
                   sv_last_played = gs_updated_at save\<rparr>)
       (filter (\<lambda>g. gs_user_id g = user_id) (game_sessions (work s)))"

text \<open>
  Modelled from the spec: the table declarations are not among the sources. The store
  draws the id of a new GameSession and keeps the last-updated timestamp of a row.
\<close>

definition save_game_route :: "prims \<Rightarrow> SaveGame \<Rightarrow> uuid \<Rightarrow> session \<Rightarrow> (error + uuid) \<times> session" where
  "save_game_route P data user_id s =
     (case gsi_id (sg_game_session data) of
        None \<Rightarrow>
          (let (new_id, s1) = uuid4 P s;
               row = \<lparr>gs_id = new_id, gs_user_id = user_id, gs_last_image = sg_image data,
                      gs_protagonist_name = gsi_protagonist_name (sg_game_session data),
                      gs_session_name = gsi_session_name (sg_game_session data),
                      gs_inventory = gsi_inventory (sg_game_session data),
                      gs_stories = gsi_scenes (sg_game_session data),
                      gs_updated_at = clock s1\<rparr>
           in case insert_game_session row (work s1) of
                Inl e \<Rightarrow> (Inl e, s1)
              | Inr d \<Rightarrow> (Inr new_id, commit (s1\<lparr>work := d\<rparr>)))
      | Some game_id \<Rightarrow>
          (case scalar_one_or_none
                  (map gs_stories (filter (\<lambda>g. gs_id g = game_id) (game_sessions (work s)))) of
             Inl e \<Rightarrow> (Inl e, s)
           | Inr None \<Rightarrow> (Inl TypeError, s)
           | Inr (Some old_scenes) \<Rightarrow>
               (let updated_scenes = old_scenes @ gsi_scenes (sg_game_session data);
                    s1 = s\<lparr>work := (work s)\<lparr>game_sessions :=
                           update_where (\<lambda>g. gs_id g = game_id)
                             (\<lambda>g. g\<lparr>gs_last_image := sg_image data,
                                    gs_session_name := gsi_session_name (sg_game_session data),
                                    gs_inventory := gsi_inventory (sg_game_session data),
                                    gs_stories := updated_scenes,
                                    gs_updated_at := clock s\<rparr>)
                             (game_sessions (work s))\<rparr>\<rparr>
                in (Inr game_id, commit s1))))"

section \<open>Reference values\<close>

text \<open>
  The row a save with an existing id must leave behind: the row as it was, with the image,
  the session name and the inventory of the request, and the scenes of the request appended
  to the scenes it held.
\<close>

definition save_values :: "SaveGame \<Rightarrow> nat \<Rightarrow> game_session \<Rightarrow> game_session" where
  "save_values data now g =
     g\<lparr>gs_last_image := sg_image data,
       gs_session_name := gsi_session_name (sg_game_session data),
       gs_inventory := gsi_inventory (sg_game_session data),
       gs_stories := gs_stories g @ gsi_scenes (sg_game_session data),
       gs_updated_at := now\<rparr>"

text \<open>An empty database, a session opened on a database, and sample rows and requests.\<close>

definition empty_db :: db where
  "empty_db = \<lparr>users = [], email_tokens = [], access_tokens = [], game_sessions = [],
               starting_stories = []\<rparr>"

definition open_session :: "db \<Rightarrow> nat \<Rightarrow> session" where
  "open_session d now = \<lparr>work = d, durable = d, past = [], draws = 0, clock = now\<rparr>"

definition ex_game :: game_session where
  "ex_game = \<lparr>gs_id = 1, gs_user_id = 7, gs_last_image = ''img0'', gs_protagonist_name = ''Ada'',
              gs_session_name = ''first'', gs_inventory = [''lamp''], gs_stories = [''s1''],
              gs_updated_at = 0\<rparr>"

definition ex_save :: "uuid option \<Rightarrow> scene list \<Rightarrow> SaveGame" where
  "ex_save game_id scenes =
     \<lparr>sg_game_session = \<lparr>gsi_id = game_id, gsi_protagonist_name = ''Ada'',
                          gsi_session_name = ''second'', gsi_inventory = [''lamp'', ''key''],
                          gsi_scenes = scenes\<rparr>,
      sg_image = ''img1''\<rparr>"

definition ex_story :: starting_story where
  "ex_story = \<lparr>ss_id = ''forest'', ss_story = Some ''You wake up.'', ss_image = Some ''forest.png''\<rparr>"

definition ex_user :: user where
  "ex_user = \<lparr>u_id = 7, u_email = ''alice@example.com'', u_password = ''Super secret'',
              u_is_active = True, u_first_name = None, u_last_name = None, u_created_at = 10\<rparr>"

definition ex_access :: "string \<Rightarrow> uuid \<Rightarrow> access_token" where
  "ex_access token user_id =
     \<lparr>at_token = token, at_expires_at = ''some unknown timestamp'', at_user_id = user_id\<rparr>"

definition ex_email_token :: "nat \<Rightarrow> email_token" where
  "ex_email_token created =
     \<lparr>et_email = ''alice@example.com'', et_password = ''Super secret'', et_token = ''link-1'',
      et_created_at = created\<rparr>"

definition ex_update :: UserUpdate where
  "ex_update = \<lparr>uu_email = None, uu_password = Some ''pw2'', uu_first_name = Some ''Alice'',
                uu_last_name = None\<rparr>"

definition ex_no_update :: UserUpdate where
  "ex_no_update = \<lparr>uu_email = None, uu_password = None, uu_first_name = None,
                   uu_last_name = None\<rparr>"

definition ex_db_users :: db where
  "ex_db_users = empty_db\<lparr>users := [ex_user],
                   access_tokens := [ex_access ''tok-a'' 7, ex_access ''tok-b'' 9]\<rparr>"

definition alice :: UserCreate where
  "alice = \<lparr>uc_email = ''alice@example.com'', uc_password = ''pw1''\<rparr>"

text \<open>
  The EmailToken row that a registration stores, and sample primitives whose tokens differ
  from draw to draw.
\<close>

definition new_email_token :: "prims \<Rightarrow> UserCreate \<Rightarrow> string \<Rightarrow> nat \<Rightarrow> email_token" where
  "new_email_token P user token now =
     \<lparr>et_email = uc_email user, et_password = hash_pw P (uc_password user), et_token = token,
      et_created_at = now\<rparr>"

definition ex_prims :: prims where
  "ex_prims = \<lparr>token_at = (\<lambda>n. ''t'' @ replicate n (CHR ''+'')), uuid_at = (\<lambda>n. 100 + n),
               hash_pw = (\<lambda>p. ''h:'' @ p), checkpw = (\<lambda>p h. h = ''h:'' @ p)\<rparr>"




text \<open>The AccessToken row that \<open>_create_access_token\<close> builds.\<close>

definition new_access_token :: "string \<Rightarrow> uuid \<Rightarrow> access_token" where
  "new_access_token token user_id =
     \<lparr>at_token = token, at_expires_at = ''some unknown timestamp'', at_user_id = user_id\<rparr>"

text \<open>
  The single-active-session invariant: no two AccessTokens of one user, in the open
  transaction and in every committed snapshot. A request names one of the operations that
  return a session; \<open>perform\<close> runs it and keeps the session. (\<open>validate_token\<close>,
  \<open>get_start_story\<close> and \<open>load_game\<close> only read.)
\<close>

definition one_token_per_user :: "db \<Rightarrow> bool" where
  "one_token_per_user d = distinct (map at_user_id (access_tokens d))"

definition token_inv :: "session \<Rightarrow> bool" where
  "token_inv s = (one_token_per_user (work s) \<and> one_token_per_user (durable s)
                  \<and> list_all one_token_per_user (past s))"

datatype request =
    Create_email_token UserCreate
  | Create_user string
  | Login_user UserLogin
  | Logout_user uuid
  | Update_user uuid UserUpdate
  | Activate_user uuid
  | Deactivate_user uuid
  | Hard_delete_user uuid
  | Update_email_token string
  | Reset_password string string
  | Save_game_route SaveGame uuid

fun perform :: "prims \<Rightarrow> request \<Rightarrow> session \<Rightarrow> session" where
  "perform P (Create_email_token user) s = snd (create_email_token P user s)"
| "perform P (Create_user token) s = snd (create_user P token s)"
| "perform P (Login_user user) s = snd (login_user P user s)"
| "perform P (Logout_user user_id) s = logout_user user_id s"
| "perform P (Update_user user_id user) s = snd (update_user P user_id user s)"
| "perform P (Activate_user user_id) s = snd (activate_user user_id s)"
| "perform P (Deactivate_user user_id) s = snd (deactivate_user user_id s)"
| "perform P (Hard_delete_user user_id) s = snd (hard_delete_user user_id s)"
| "perform P (Update_email_token email) s = snd (update_email_token P email s)"
| "perform P (Reset_password token password) s = snd (reset_password P token password s)"
| "perform P (Save_game_route data user_id) s = snd (save_game_route P data user_id s)"

text \<open>
  The primitives with the bodies of the source for \<open>generate_token\<close> and \<open>_hash_password\<close>,
  and \<open>bcrypt.checkpw\<close> at the one pair the login below asks about: the password \<open>abc\<close>
  against its bcrypt hash (a published test vector of the algorithm).
\<close>

definition bcrypt_hash_abc :: string where
  "bcrypt_hash_abc = ''$2a$06$If6bvum7DFjUnE9p2uDeDu0YHzrHM6tf.iqN8.yx.jNN1ILEf7h0i''"

definition src_prims_bcrypt :: prims where
  "src_prims_bcrypt = src_prims (\<lambda>p h. p = ''abc'' \<and> h = bcrypt_hash_abc)"

definition ex_user_bcrypt :: user where
  "ex_user_bcrypt = ex_user\<lparr>u_password := bcrypt_hash_abc\<rparr>"

definition ex_db_bcrypt :: db where
  "ex_db_bcrypt = empty_db\<lparr>users := [ex_user_bcrypt]\<rparr>"

definition ex_login :: UserLogin where
  "ex_login = \<lparr>ul_email = ''alice@example.com'', ul_password = ''abc''\<rparr>"

text \<open>
  The unique keys of the store: user ids and emails, the token strings of the EmailTokens
  and of the AccessTokens, the ids of sessions and stories.
  The theorems about lookups assume them for the table they read; every operation keeps
  them, in the open transaction and in the committed state.
\<close>

definition keys_ok :: "db \<Rightarrow> bool" where
  "keys_ok d = (distinct (map u_id (users d)) \<and> distinct (map u_email (users d))
                \<and> distinct (map et_token (email_tokens d))
                \<and> distinct (map at_token (access_tokens d))
                \<and> distinct (map gs_id (game_sessions d))
                \<and> distinct (map ss_id (starting_stories d)))"

definition store_ok :: "session \<Rightarrow> bool" where
  "store_ok s = (keys_ok (work s) \<and> keys_ok (durable s))"

text \<open>
  The pattern of \<open>_validate_email\<close> read as a decomposition of the string: a local part, an
  \<open>@\<close>, a domain, a dot, a top-level domain of two letters or more, and at most one line
  feed at the very end.
\<close>

definition email_pattern :: "string \<Rightarrow> bool" where
  "email_pattern email =
     (\<exists>l d t nl. email = l @ ''@'' @ d @ ''.'' @ t @ nl
        \<and> l \<noteq> [] \<and> list_all local_char l
        \<and> d \<noteq> [] \<and> list_all domain_char d
        \<and> 2 \<le> length t \<and> list_all is_alpha t
        \<and> (nl = [] \<or> nl = [CHR 0x0A]))"

section \<open>Lookups by a unique key\<close>

lemma filter_key_unique:
  "distinct (map f xs) \<Longrightarrow> x \<in> set xs \<Longrightarrow> filter (\<lambda>y. f y = f x) xs = [x]"
proof (induction xs)
  case Nil
  then show ?case by simp
next
  case (Cons a xs)
  show ?case
  proof (cases "a = x")
    case True
    with Cons.prems have "f x \<notin> f ` set xs" by simp
    then have "filter (\<lambda>y. f y = f x) xs = []"
      by (induction xs) auto
    with True show ?thesis by simp
  next
    case False
    with Cons.prems have in_xs: "x \<in> set xs" and d: "distinct (map f xs)" and "f a \<notin> f ` set xs"
      by auto
    then have "f a \<noteq> f x" by auto
    with Cons.IH [OF d in_xs] show ?thesis by simp
  qed
qed

lemma filter_key_absent:
  "k \<notin> f ` set xs \<Longrightarrow> filter (\<lambda>y. f y = k) xs = []"
  by (induction xs) auto

lemma update_where_key:
  "(\<And>r. p r \<Longrightarrow> f (g r) = f r) \<Longrightarrow> map f (update_where p g xs) = map f xs"
  by (induction xs) (auto simp: update_where_def)

lemma filter_update_where:
  "(\<And>r. q (g r) = q r) \<Longrightarrow>
   filter q (update_where p g xs) = update_where p g (filter q xs)"
  by (induction xs) (auto simp: update_where_def)

lemma filter_update_unique:
  assumes "distinct (map f xs)" and "x \<in> set xs" and "\<And>r. f (g r) = f r"
  shows "filter (\<lambda>y. f y = f x) (update_where (\<lambda>y. f y = f x) g xs) = [g x]"
proof -
  have "filter (\<lambda>y. f y = f x) (update_where (\<lambda>y. f y = f x) g xs)
        = update_where (\<lambda>y. f y = f x) g (filter (\<lambda>y. f y = f x) xs)"
    by (rule filter_update_where) (simp add: assms(3))
  also have "\<dots> = [g x]"
    by (simp add: filter_key_unique [OF assms(1,2)] update_where_def)
  finally show ?thesis .
qed

section \<open>Sessions and commits\<close>

lemma work_commit [simp]: "work (commit s) = work s"
  by (simp add: commit_def)

lemma durable_commit [simp]: "durable (commit s) = work s"
  by (simp add: commit_def)

lemma past_commit [simp]: "past (commit s) = durable s # past s"
  by (simp add: commit_def)

lemma draws_commit [simp]: "draws (commit s) = draws s"
  by (simp add: commit_def)

lemma clock_commit [simp]: "clock (commit s) = clock s"
  by (simp add: commit_def)

section \<open>Saving a game\<close>

lemma save_values_id [simp]: "gs_id (save_values data now g) = gs_id g"
  by (simp add: save_values_def)

lemma save_existing:
  assumes "gsi_id (sg_game_session data) = Some gid"
    and "distinct (map gs_id (game_sessions (work s)))"
    and "r \<in> set (game_sessions (work s))" and "gs_id r = gid"
  shows "save_game_route P data uid s =
    (Inr gid, commit (s\<lparr>work := (work s)\<lparr>game_sessions :=
        update_where (\<lambda>g. gs_id g = gid) (save_values data (clock s)) (game_sessions (work s))\<rparr>\<rparr>))"
proof -
  have one: "filter (\<lambda>g. gs_id g = gid) (game_sessions (work s)) = [r]"
    using filter_key_unique [of gs_id, OF assms(2,3)] assms(4) by simp
  have "update_where (\<lambda>g. gs_id g = gid)
          (\<lambda>g. g\<lparr>gs_last_image := sg_image data,
                 gs_session_name := gsi_session_name (sg_game_session data),
                 gs_inventory := gsi_inventory (sg_game_session data),
                 gs_stories := gs_stories r @ gsi_scenes (sg_game_session data),
                 gs_updated_at := clock s\<rparr>) (game_sessions (work s))
      = update_where (\<lambda>g. gs_id g = gid) (save_values data (clock s)) (game_sessions (work s))"
    unfolding update_where_def
  proof (rule map_cong [OF refl])
    fix g assume "g \<in> set (game_sessions (work s))"
    show "(if gs_id g = gid then g\<lparr>gs_last_image := sg_image data,
                 gs_session_name := gsi_session_name (sg_game_session data),
                 gs_inventory := gsi_inventory (sg_game_session data),
                 gs_stories := gs_stories r @ gsi_scenes (sg_game_session data),
                 gs_updated_at := clock s\<rparr> else g) =
          (if gs_id g = gid then save_values data (clock s) g else g)"
    proof (cases "gs_id g = gid")
      case True
      with \<open>g \<in> set (game_sessions (work s))\<close>
      have "g \<in> set (filter (\<lambda>g. gs_id g = gid) (game_sessions (work s)))" by simp
      with one have "g = r" by simp
      then show ?thesis using True by (simp add: save_values_def)
    next
      case False
      then show ?thesis by simp
    qed
  qed
  then show ?thesis
    using assms(1) one by (simp add: save_game_route_def)
qed


text \<open>
  Claim C1. A save that carries the id of a stored session returns that id and rewrites the
  row in place: image, session name and inventory are those of the request, and the scene
  list is the stored list followed by the scenes of the request, whatever their lengths.
  No other row and no other table changes, and the change is committed. A second save with
  the same id appends again: the stored list is then the list left by the first save
  followed by the scenes of the second.
\<close>

theorem save_game_route_appends:
  assumes "gsi_id (sg_game_session data) = Some gid"
    and "gsi_id (sg_game_session data2) = Some gid"
    and "distinct (map gs_id (game_sessions (work s)))"
    and "r \<in> set (game_sessions (work s))" and "gs_id r = gid"
  shows "(let s1 = snd (save_game_route P data uid s);
              s2 = snd (save_game_route P data2 uid2 s1)
          in fst (save_game_route P data uid s) = Inr gid
           \<and> game_sessions (work s1) =
               update_where (\<lambda>g. gs_id g = gid) (save_values data (clock s))
                 (game_sessions (work s))
           \<and> (work s1)\<lparr>game_sessions := game_sessions (work s)\<rparr> = work s
           \<and> durable s1 = work s1
           \<and> filter (\<lambda>g. gs_id g = gid) (game_sessions (work s1)) = [save_values data (clock s) r]
           \<and> gs_stories (save_values data (clock s) r)
               = gs_stories r @ gsi_scenes (sg_game_session data)
           \<and> fst (save_game_route P data2 uid2 s1) = Inr gid
           \<and> map gs_stories (filter (\<lambda>g. gs_id g = gid) (game_sessions (work s2)))
               = [(gs_stories r @ gsi_scenes (sg_game_session data))
                    @ gsi_scenes (sg_game_session data2)])"
proof -
  let ?xs = "game_sessions (work s)"
  let ?ys = "update_where (\<lambda>g. gs_id g = gid) (save_values data (clock s)) ?xs"
  let ?s1 = "commit (s\<lparr>work := (work s)\<lparr>game_sessions := ?ys\<rparr>\<rparr>)"
  let ?r1 = "save_values data (clock s) r"
  have first: "save_game_route P data uid s = (Inr gid, ?s1)"
    by (rule save_existing [OF assms(1,3,4,5)])
  have ys: "game_sessions (work ?s1) = ?ys" by simp
  have keys: "map gs_id ?ys = map gs_id ?xs"
    by (rule update_where_key) simp
  have one: "filter (\<lambda>g. gs_id g = gid) ?ys = [?r1]"
    using filter_update_unique [of gs_id ?xs r "save_values data (clock s)"] assms(3,4,5)
    by simp
  have d1: "distinct (map gs_id (game_sessions (work ?s1)))"
    using keys assms(3) by simp
  have r1_in: "?r1 \<in> set (game_sessions (work ?s1))"
  proof -
    have "?r1 \<in> set (filter (\<lambda>g. gs_id g = gid) ?ys)" using one by simp
    then show ?thesis by simp
  qed
  have r1_id: "gs_id ?r1 = gid" using assms(5) by simp
  let ?zs = "update_where (\<lambda>g. gs_id g = gid) (save_values data2 (clock ?s1))
               (game_sessions (work ?s1))"
  let ?s2 = "commit (?s1\<lparr>work := (work ?s1)\<lparr>game_sessions := ?zs\<rparr>\<rparr>)"
  have second: "save_game_route P data2 uid2 ?s1 = (Inr gid, ?s2)"
    by (rule save_existing [OF assms(2) d1 r1_in r1_id])
  have two: "filter (\<lambda>g. gs_id g = gid) ?zs = [save_values data2 (clock ?s1) ?r1]"
    using filter_update_unique [of gs_id "game_sessions (work ?s1)" ?r1
            "save_values data2 (clock ?s1)"] d1 r1_in r1_id
    by simp
  have stories1: "gs_stories ?r1 = gs_stories r @ gsi_scenes (sg_game_session data)"
    by (simp add: save_values_def)
  have stories2: "gs_stories (save_values data2 (clock ?s1) ?r1)
      = (gs_stories r @ gsi_scenes (sg_game_session data)) @ gsi_scenes (sg_game_session data2)"
    by (simp add: save_values_def)
  have zs: "game_sessions (work ?s2) = ?zs" by simp
  show ?thesis
    unfolding Let_def first second fst_conv snd_conv zs two
    using one stories1 stories2 by simp
qed

theorem save_game_route_appends_witness:
  "gsi_id (sg_game_session (ex_save (Some 1) [''s2'', ''s3''])) = Some 1
   \<and> gsi_id (sg_game_session (ex_save (Some 1) [''s4''])) = Some 1
   \<and> distinct (map gs_id (game_sessions (work (open_session (empty_db\<lparr>game_sessions := [ex_game]\<rparr>) 50))))
   \<and> ex_game \<in> set (game_sessions (work (open_session (empty_db\<lparr>game_sessions := [ex_game]\<rparr>) 50)))
   \<and> gs_id ex_game = 1
   \<and> map gs_stories (filter (\<lambda>g. gs_id g = 1) (game_sessions (work
        (snd (save_game_route (src_prims (\<lambda>p h. True)) (ex_save (Some 1) [''s4'']) 7
          (snd (save_game_route (src_prims (\<lambda>p h. True)) (ex_save (Some 1) [''s2'', ''s3'']) 7
            (open_session (empty_db\<lparr>game_sessions := [ex_game]\<rparr>) 50))))))))
      = [[''s1'', ''s2'', ''s3'', ''s4'']]"
proof -
  let ?s = "open_session (empty_db\<lparr>game_sessions := [ex_game]\<rparr>) 50"
  have h1: "gsi_id (sg_game_session (ex_save (Some 1) [''s2'', ''s3''])) = Some 1"
    by (simp add: ex_save_def)
  have h2: "gsi_id (sg_game_session (ex_save (Some 1) [''s4''])) = Some 1"
    by (simp add: ex_save_def)
  have h3: "distinct (map gs_id (game_sessions (work ?s)))"
    by (simp add: open_session_def empty_db_def)
  have h4: "ex_game \<in> set (game_sessions (work ?s))"
    by (simp add: open_session_def empty_db_def)
  have h5: "gs_id ex_game = 1" by (simp add: ex_game_def)
  show ?thesis
    using h1 h2 h3 h4 h5
      save_game_route_appends [OF h1 h2 h3 h4 h5, of "src_prims (\<lambda>p h. True)" 7 7]
    by (simp add: Let_def ex_save_def ex_game_def)
qed

text \<open>
  Claim C9. A save that carries a session id no row holds ends in the TypeError of
  \<open>None + scenes\<close> and changes nothing; it never ends in an HTTPException, so there is no
  typed NotFound. The TypeError occurs for no other input: when a row holds the id (and ids
  are unique) the save returns the id.
\<close>

theorem save_game_route_unknown_id:
  assumes "gsi_id (sg_game_session data) = Some gid"
  shows "(fst (save_game_route P data uid s) = Inl TypeError
            \<longleftrightarrow> gid \<notin> gs_id ` set (game_sessions (work s)))
       \<and> (gid \<notin> gs_id ` set (game_sessions (work s))
            \<longrightarrow> save_game_route P data uid s = (Inl TypeError, s))
       \<and> (\<forall>status detail. fst (save_game_route P data uid s) \<noteq> Inl (HTTPException status detail))
       \<and> (gid \<in> gs_id ` set (game_sessions (work s))
            \<and> distinct (map gs_id (game_sessions (work s)))
            \<longrightarrow> fst (save_game_route P data uid s) = Inr gid)"
proof -
  let ?rows = "filter (\<lambda>g. gs_id g = gid) (game_sessions (work s))"
  have absent: "save_game_route P data uid s = (Inl TypeError, s)"
    if "gid \<notin> gs_id ` set (game_sessions (work s))"
    using assms filter_key_absent [OF that] by (simp add: save_game_route_def)
  have present: "fst (save_game_route P data uid s) \<noteq> Inl TypeError"
    if "gid \<in> gs_id ` set (game_sessions (work s))"
  proof -
    from that have "?rows \<noteq> []" by (auto simp: filter_empty_conv)
    then obtain a as where "?rows = a # as" by (cases ?rows) auto
    then show ?thesis using assms
      by (cases as) (simp_all add: save_game_route_def)
  qed
  have untyped: "fst (save_game_route P data uid s) \<noteq> Inl (HTTPException status detail)"
    for status detail
    using assms
    by (cases "map gs_stories ?rows" rule: scalar_one_or_none.cases)
       (simp_all add: save_game_route_def)
  have total: "fst (save_game_route P data uid s) = Inr gid"
    if "gid \<in> gs_id ` set (game_sessions (work s))"
      and "distinct (map gs_id (game_sessions (work s)))"
  proof -
    from that(1) obtain r where "r \<in> set (game_sessions (work s))" "gs_id r = gid" by auto
    from save_existing [OF assms that(2) this] show ?thesis by simp
  qed
  show ?thesis using absent present untyped total by auto
qed

theorem save_game_route_unknown_id_witness:
  "gsi_id (sg_game_session (ex_save (Some 2) [''s2''])) = Some 2
   \<and> 2 \<notin> gs_id ` set (game_sessions (work (open_session (empty_db\<lparr>game_sessions := [ex_game]\<rparr>) 50)))
   \<and> save_game_route (src_prims (\<lambda>p h. True)) (ex_save (Some 2) [''s2'']) 7
        (open_session (empty_db\<lparr>game_sessions := [ex_game]\<rparr>) 50)
      = (Inl TypeError, open_session (empty_db\<lparr>game_sessions := [ex_game]\<rparr>) 50)
   \<and> gsi_id (sg_game_session (ex_save (Some 1) [''s2''])) = Some 1
   \<and> 1 \<in> gs_id ` set (game_sessions (work (open_session (empty_db\<lparr>game_sessions := [ex_game]\<rparr>) 50)))
   \<and> distinct (map gs_id (game_sessions (work (open_session (empty_db\<lparr>game_sessions := [ex_game]\<rparr>) 50))))
   \<and> fst (save_game_route (src_prims (\<lambda>p h. True)) (ex_save (Some 1) [''s2'']) 7
        (open_session (empty_db\<lparr>game_sessions := [ex_game]\<rparr>) 50)) = Inr 1"
proof -
  let ?s = "open_session (empty_db\<lparr>game_sessions := [ex_game]\<rparr>) 50"
  have h1: "gsi_id (sg_game_session (ex_save (Some 2) [''s2''])) = Some 2"
    by (simp add: ex_save_def)
  have h2: "gsi_id (sg_game_session (ex_save (Some 1) [''s2''])) = Some 1"
    by (simp add: ex_save_def)
  have a: "2 \<notin> gs_id ` set (game_sessions (work ?s))"
    by (simp add: open_session_def empty_db_def ex_game_def)
  have b: "1 \<in> gs_id ` set (game_sessions (work ?s))"
    by (simp add: open_session_def empty_db_def ex_game_def)
  have d: "distinct (map gs_id (game_sessions (work ?s)))"
    by (simp add: open_session_def empty_db_def)
  show ?thesis
    using h1 h2 a b d
      save_game_route_unknown_id [OF h1, of "src_prims (\<lambda>p h. True)" 7 ?s]
      save_game_route_unknown_id [OF h2, of "src_prims (\<lambda>p h. True)" 7 ?s]
    by simp
qed

text \<open>
  Claim C10. \<open>get_start_story\<close> on an id no row holds ends in the AttributeError of
  \<open>None.story\<close>, not in its 404. When the row exists, it answers 404 exactly when the
  narrative text or the image of the row is absent, and otherwise returns image, text and
  id. The function reads the session and returns no new one.
\<close>

theorem get_start_story_cases:
  "(story_id \<notin> ss_id ` set (starting_stories (work s))
      \<longrightarrow> get_start_story story_id s = Inl AttributeError)
   \<and> (distinct (map ss_id (starting_stories (work s))) \<and> r \<in> set (starting_stories (work s))
        \<and> ss_id r = story_id
      \<longrightarrow> (get_start_story story_id s
              = Inl (HTTPException 404 (''Story with ID '' @ story_id @ '' not found''))
            \<longleftrightarrow> ss_story r = None \<or> ss_image r = None)
        \<and> (\<forall>story img. ss_story r = Some story \<and> ss_image r = Some img
              \<longrightarrow> get_start_story story_id s = Inr (img, story, story_id)))"
proof -
  have absent: "get_start_story story_id s = Inl AttributeError"
    if "story_id \<notin> ss_id ` set (starting_stories (work s))"
    using filter_key_absent [OF that] by (simp add: get_start_story_def)
  have present: "get_start_story story_id s =
      (case (ss_story r, ss_image r) of
         (Some story, Some img) \<Rightarrow> Inr (img, story, story_id)
       | _ \<Rightarrow> Inl (HTTPException 404 (''Story with ID '' @ story_id @ '' not found'')))"
    if "distinct (map ss_id (starting_stories (work s)))" "r \<in> set (starting_stories (work s))"
      "ss_id r = story_id"
    using filter_key_unique [of ss_id, OF that(1,2)] that(3)
    by (simp add: get_start_story_def split: option.splits)
  show ?thesis
    using absent present by (auto split: option.splits)
qed

theorem get_start_story_cases_witness:
  "''desert'' \<notin> ss_id ` set (starting_stories (work (open_session (empty_db\<lparr>starting_stories := [ex_story]\<rparr>) 50)))
   \<and> get_start_story ''desert'' (open_session (empty_db\<lparr>starting_stories := [ex_story]\<rparr>) 50)
       = Inl AttributeError
   \<and> distinct (map ss_id (starting_stories (work (open_session (empty_db\<lparr>starting_stories := [ex_story]\<rparr>) 50))))
   \<and> ex_story \<in> set (starting_stories (work (open_session (empty_db\<lparr>starting_stories := [ex_story]\<rparr>) 50)))
   \<and> ss_id ex_story = ''forest''
   \<and> ss_story ex_story = Some ''You wake up.'' \<and> ss_image ex_story = Some ''forest.png''
   \<and> get_start_story ''forest'' (open_session (empty_db\<lparr>starting_stories := [ex_story]\<rparr>) 50)
       = Inr (''forest.png'', ''You wake up.'', ''forest'')"
proof -
  let ?s = "open_session (empty_db\<lparr>starting_stories := [ex_story]\<rparr>) 50"
  have a: "''desert'' \<notin> ss_id ` set (starting_stories (work ?s))"
    by (simp add: open_session_def empty_db_def ex_story_def)
  have d: "distinct (map ss_id (starting_stories (work ?s)))"
    by (simp add: open_session_def empty_db_def)
  have m: "ex_story \<in> set (starting_stories (work ?s))"
    by (simp add: open_session_def empty_db_def)
  have i: "ss_id ex_story = ''forest''" by (simp add: ex_story_def)
  have f: "ss_story ex_story = Some ''You wake up.''" "ss_image ex_story = Some ''forest.png''"
    by (simp_all add: ex_story_def)
  show ?thesis
    using a d m i f
      get_start_story_cases [of "''desert''" ?s ex_story]
      get_start_story_cases [of "''forest''" ?s ex_story]
    by simp
qed

section \<open>Profile update\<close>

lemma update_where_Nil [simp]: "update_where p g [] = []"
  by (simp add: update_where_def)

lemma update_where_Cons [simp]:
  "update_where p g (a # xs) = (if p a then g a else a) # update_where p g xs"
  by (simp add: update_where_def)

lemma update_where_none:
  "\<forall>r\<in>set xs. \<not> p r \<Longrightarrow> update_where p g xs = xs"
  by (induction xs) (auto simp: update_where_def)

lemma set_update_where:
  "set (update_where p g xs) \<subseteq> set xs \<union> g ` {r \<in> set xs. p r}"
  by (induction xs) (auto simp: update_where_def)

lemma distinct_update_key:
  assumes "distinct (map k xs)" and "distinct (map f xs)"
    and "\<And>r. f (g r) = e" and "\<forall>v\<in>set xs. f v = e \<longrightarrow> k v = uid"
  shows "distinct (map f (update_where (\<lambda>r. k r = uid) g xs))"
  using assms(1,2,4)
proof (induction xs)
  case Nil
  then show ?case by simp
next
  case (Cons a xs)
  show ?case
  proof (cases "k a = uid")
    case True
    with Cons.prems have no: "\<forall>r\<in>set xs. \<not> k r = uid" by (auto simp: image_iff)
    then have same: "update_where (\<lambda>r. k r = uid) g xs = xs"
      by (rule update_where_none)
    from Cons.prems no have "e \<notin> f ` set xs" by (auto simp: image_iff)
    with True same Cons.prems assms(3) show ?thesis
      by simp
  next
    case False
    with Cons.prems have ne: "f a \<noteq> e" by auto
    have "f a \<notin> f ` set (update_where (\<lambda>r. k r = uid) g xs)"
    proof
      assume "f a \<in> f ` set (update_where (\<lambda>r. k r = uid) g xs)"
      then obtain r where r: "r \<in> set (update_where (\<lambda>r. k r = uid) g xs)" "f r = f a" by auto
      with set_update_where [of "\<lambda>r. k r = uid" g xs]
      have "r \<in> set xs \<or> (\<exists>r0. r = g r0)" by auto
      then show False
      proof
        assume "r \<in> set xs"
        with Cons.prems(2) r(2) show False by (auto simp: image_iff)
      next
        assume "\<exists>r0. r = g r0"
        with assms(3) r(2) ne show False by auto
      qed
    qed
    moreover have "distinct (map f (update_where (\<lambda>r. k r = uid) g xs))"
      using Cons.IH Cons.prems by auto
    ultimately show ?thesis using False
      by simp
  qed
qed

lemma work_logout [simp]:
  "work (logout_user uid s) =
     (work s)\<lparr>access_tokens := filter (\<lambda>t. at_user_id t \<noteq> uid) (access_tokens (work s))\<rparr>"
  by (simp add: logout_user_def)

lemma durable_logout [simp]: "durable (logout_user uid s) = work (logout_user uid s)"
  by (simp add: logout_user_def)

lemma past_logout [simp]: "past (logout_user uid s) = durable s # past s"
  by (simp add: logout_user_def)

lemma draws_logout [simp]: "draws (logout_user uid s) = draws s"
  by (simp add: logout_user_def)

lemma clock_logout [simp]: "clock (logout_user uid s) = clock s"
  by (simp add: logout_user_def)

lemma no_values_nud [simp]: "no_values (nud P user) = no_values user"
  by (simp add: no_values_def nud_def)

lemma update_user_no_values:
  assumes "no_values user"
  shows "update_user P user_id user s = (Inl DatabaseError, s)"
  using assms by (simp add: update_user_def update_user_rows_def)

lemma update_user_absent:
  assumes "user_id \<notin> u_id ` set (users (work s))" and "\<not> no_values user"
  shows "update_user P user_id user s
         = (Inl (HTTPException 404 ''User not found''), logout_user user_id (commit s))"
proof -
  have "\<forall>r\<in>set (users (work s)). \<not> u_id r = user_id" using assms(1) by auto
  then have same: "update_where (\<lambda>u. u_id u = user_id) (set_values (nud P user)) (users (work s))
                   = users (work s)"
    by (rule update_where_none)
  have none: "filter (\<lambda>u. u_id u = user_id) (users (work s)) = []"
    by (rule filter_key_absent [OF assms(1)])
  have rows: "update_user_rows user_id (nud P user) (work s) = Inr (work s)"
    using assms(2) by (simp add: update_user_rows_def same none)
  show ?thesis
    by (simp add: update_user_def rows none)
qed

lemma update_user_present:
  assumes "distinct (map u_id (users (work s)))" and "u \<in> set (users (work s))"
    and "u_id u = user_id"
    and "distinct (map u_email (users (work s)))"
    and "\<forall>e. uu_email user = Some e \<longrightarrow> (\<forall>v\<in>set (users (work s)). u_email v = e \<longrightarrow> u_id v = user_id)"
    and "\<not> no_values user"
  shows "update_user P user_id user s
         = (Inr (set_values (nud P user) u),
            commit (s\<lparr>work := (work s)\<lparr>users :=
              update_where (\<lambda>u. u_id u = user_id) (set_values (nud P user)) (users (work s))\<rparr>\<rparr>))"
proof -
  let ?n = "nud P user"
  let ?rows = "update_where (\<lambda>u. u_id u = user_id) (set_values ?n) (users (work s))"
  have id_kept: "u_id (set_values ?n r) = u_id r" for r
    by (simp add: set_values_def)
  have ok: "uu_email ?n \<noteq> None \<Longrightarrow> distinct (map u_email ?rows)"
  proof -
    assume "uu_email ?n \<noteq> None"
    then obtain e where e: "uu_email user = Some e" by (auto simp: nud_def)
    then have "\<And>r. u_email (set_values ?n r) = e" by (simp add: set_values_def nud_def)
    moreover from e assms(5)
    have "\<forall>v\<in>set (users (work s)). u_email v = e \<longrightarrow> u_id v = user_id" by simp
    ultimately show ?thesis
      using distinct_update_key [of u_id "users (work s)" u_email "set_values ?n" e user_id]
        assms(1,4) by simp
  qed
  then have rows: "update_user_rows user_id ?n (work s) = Inr ((work s)\<lparr>users := ?rows\<rparr>)"
    using assms(6) by (auto simp: update_user_rows_def Let_def)
  have one: "filter (\<lambda>u. u_id u = user_id) ?rows = [set_values ?n u]"
    using filter_update_unique [of u_id "users (work s)" u "set_values ?n"] assms(1,2,3) id_kept
    by simp
  show ?thesis
    by (simp add: update_user_def rows one)
qed

text \<open>
  A profile update that carries at least one field: for a user id no row holds it answers
  404 after deleting every AccessToken of that id, and the deletion is committed. When the
  row exists (and the new email, if any, is held by no other user), the row returned and
  stored carries the new value of each field the request gives and the old value of each
  field it leaves absent, with the password replaced by its hash; id, active flag and
  creation time stay. A request with no field ends in the error of the empty UPDATE.
\<close>

theorem update_user_cases:
  "(no_values user \<longrightarrow> update_user P user_id user s = (Inl DatabaseError, s))
   \<and> (\<not> no_values user \<and> user_id \<notin> u_id ` set (users (work s)) \<longrightarrow>
      (let s' = snd (update_user P user_id user s)
       in fst (update_user P user_id user s) = Inl (HTTPException 404 ''User not found'')
        \<and> access_tokens (work s')
            = filter (\<lambda>t. at_user_id t \<noteq> user_id) (access_tokens (work s))
        \<and> user_id \<notin> at_user_id ` set (access_tokens (work s'))
        \<and> users (work s') = users (work s)
        \<and> durable s' = work s'))
   \<and> (\<not> no_values user
        \<and> distinct (map u_id (users (work s))) \<and> u \<in> set (users (work s)) \<and> u_id u = user_id
        \<and> distinct (map u_email (users (work s)))
        \<and> (\<forall>e. uu_email user = Some e \<longrightarrow>
              (\<forall>v\<in>set (users (work s)). u_email v = e \<longrightarrow> u_id v = user_id)) \<longrightarrow>
      (let s' = snd (update_user P user_id user s); u' = set_values (nud P user) u
       in fst (update_user P user_id user s) = Inr u'
        \<and> users (work s')
            = update_where (\<lambda>v. u_id v = user_id) (set_values (nud P user)) (users (work s))
        \<and> filter (\<lambda>v. u_id v = user_id) (users (work s')) = [u']
        \<and> u_email u' = (case uu_email user of None \<Rightarrow> u_email u | Some v \<Rightarrow> v)
        \<and> u_password u' = (case uu_password user of None \<Rightarrow> u_password u | Some v \<Rightarrow> hash_pw P v)
        \<and> u_first_name u' = (case uu_first_name user of None \<Rightarrow> u_first_name u | Some v \<Rightarrow> Some v)
        \<and> u_last_name u' = (case uu_last_name user of None \<Rightarrow> u_last_name u | Some v \<Rightarrow> Some v)
        \<and> u_id u' = u_id u \<and> u_is_active u' = u_is_active u \<and> u_created_at u' = u_created_at u
        \<and> access_tokens (work s') = access_tokens (work s)
        \<and> durable s' = work s'))"
proof (intro conjI impI)
  assume "no_values user"
  then show "update_user P user_id user s = (Inl DatabaseError, s)"
    by (rule update_user_no_values)
next
  assume "\<not> no_values user \<and> user_id \<notin> u_id ` set (users (work s))"
  then have "user_id \<notin> u_id ` set (users (work s))" and "\<not> no_values user" by blast+
  from update_user_absent [OF this]
  show "let s' = snd (update_user P user_id user s)
       in fst (update_user P user_id user s) = Inl (HTTPException 404 ''User not found'')
        \<and> access_tokens (work s')
            = filter (\<lambda>t. at_user_id t \<noteq> user_id) (access_tokens (work s))
        \<and> user_id \<notin> at_user_id ` set (access_tokens (work s'))
        \<and> users (work s') = users (work s)
        \<and> durable s' = work s'"
    by (auto simp: Let_def)
next
  assume a: "\<not> no_values user
        \<and> distinct (map u_id (users (work s))) \<and> u \<in> set (users (work s)) \<and> u_id u = user_id
        \<and> distinct (map u_email (users (work s)))
        \<and> (\<forall>e. uu_email user = Some e \<longrightarrow>
              (\<forall>v\<in>set (users (work s)). u_email v = e \<longrightarrow> u_id v = user_id))"
  then have d: "distinct (map u_id (users (work s)))" and m: "u \<in> set (users (work s))"
    and i: "u_id u = user_id" and de: "distinct (map u_email (users (work s)))"
    and c: "\<forall>e. uu_email user = Some e \<longrightarrow>
              (\<forall>v\<in>set (users (work s)). u_email v = e \<longrightarrow> u_id v = user_id)"
    and nv: "\<not> no_values user"
    by blast+
  have id_kept: "\<And>r. u_id (set_values (nud P user) r) = u_id r"
    by (simp add: set_values_def)
  have one: "filter (\<lambda>v. u_id v = user_id)
               (update_where (\<lambda>v. u_id v = user_id) (set_values (nud P user)) (users (work s)))
             = [set_values (nud P user) u]"
    using filter_update_unique [of u_id "users (work s)" u "set_values (nud P user)"] d m i id_kept
    by simp
  have fields: "u_email (set_values (nud P user) u) = (case uu_email user of None \<Rightarrow> u_email u | Some v \<Rightarrow> v)"
    "u_password (set_values (nud P user) u) = (case uu_password user of None \<Rightarrow> u_password u | Some v \<Rightarrow> hash_pw P v)"
    "u_first_name (set_values (nud P user) u) = (case uu_first_name user of None \<Rightarrow> u_first_name u | Some v \<Rightarrow> Some v)"
    "u_last_name (set_values (nud P user) u) = (case uu_last_name user of None \<Rightarrow> u_last_name u | Some v \<Rightarrow> Some v)"
    "u_id (set_values (nud P user) u) = u_id u"
    "u_is_active (set_values (nud P user) u) = u_is_active u"
    "u_created_at (set_values (nud P user) u) = u_created_at u"
    by (simp_all add: set_values_def nud_def hash_password_def split: option.splits)
  from update_user_present [OF d m i de c nv, of P]
  show "let s' = snd (update_user P user_id user s); u' = set_values (nud P user) u
       in fst (update_user P user_id user s) = Inr u'
        \<and> users (work s')
            = update_where (\<lambda>v. u_id v = user_id) (set_values (nud P user)) (users (work s))
        \<and> filter (\<lambda>v. u_id v = user_id) (users (work s')) = [u']
        \<and> u_email u' = (case uu_email user of None \<Rightarrow> u_email u | Some v \<Rightarrow> v)
        \<and> u_password u' = (case uu_password user of None \<Rightarrow> u_password u | Some v \<Rightarrow> hash_pw P v)
        \<and> u_first_name u' = (case uu_first_name user of None \<Rightarrow> u_first_name u | Some v \<Rightarrow> Some v)
        \<and> u_last_name u' = (case uu_last_name user of None \<Rightarrow> u_last_name u | Some v \<Rightarrow> Some v)
        \<and> u_id u' = u_id u \<and> u_is_active u' = u_is_active u \<and> u_created_at u' = u_created_at u
        \<and> access_tokens (work s') = access_tokens (work s)
        \<and> durable s' = work s'"
    unfolding Let_def using one fields by simp
qed

theorem update_user_cases_witness:
  "9 \<notin> u_id ` set (users (work (open_session ex_db_users 50)))
   \<and> fst (update_user (src_prims (\<lambda>p h. True)) 9 ex_update (open_session ex_db_users 50))
       = Inl (HTTPException 404 ''User not found'')
   \<and> access_tokens (work (snd (update_user (src_prims (\<lambda>p h. True)) 9 ex_update
        (open_session ex_db_users 50)))) = [ex_access ''tok-a'' 7]
   \<and> distinct (map u_id (users (work (open_session ex_db_users 50))))
   \<and> ex_user \<in> set (users (work (open_session ex_db_users 50))) \<and> u_id ex_user = 7
   \<and> distinct (map u_email (users (work (open_session ex_db_users 50))))
   \<and> uu_email ex_update = None
   \<and> fst (update_user (src_prims (\<lambda>p h. True)) 7 ex_update (open_session ex_db_users 50))
       = Inr (ex_user\<lparr>u_password := ''Super secret'', u_first_name := Some ''Alice''\<rparr>)"
proof -
  let ?s = "open_session ex_db_users 50"
  let ?P = "src_prims (\<lambda>p h. True)"
  have a: "9 \<notin> u_id ` set (users (work ?s))"
    by (simp add: open_session_def ex_db_users_def empty_db_def ex_user_def)
  have d: "distinct (map u_id (users (work ?s)))"
    by (simp add: open_session_def ex_db_users_def empty_db_def)
  have m: "ex_user \<in> set (users (work ?s))"
    by (simp add: open_session_def ex_db_users_def empty_db_def)
  have i: "u_id ex_user = 7" by (simp add: ex_user_def)
  have de: "distinct (map u_email (users (work ?s)))"
    by (simp add: open_session_def ex_db_users_def empty_db_def)
  have c: "\<forall>e. uu_email ex_update = Some e \<longrightarrow>
         (\<forall>v\<in>set (users (work ?s)). u_email v = e \<longrightarrow> u_id v = 7)"
    by (simp add: ex_update_def)
  have toks: "access_tokens (work ?s) = [ex_access ''tok-a'' 7, ex_access ''tok-b'' 9]"
    by (simp add: open_session_def ex_db_users_def empty_db_def)
  have new: "set_values (nud ?P ex_update) ex_user
             = ex_user\<lparr>u_password := ''Super secret'', u_first_name := Some ''Alice''\<rparr>"
    by (simp add: set_values_def nud_def ex_update_def src_prims_def hash_password_def ex_user_def)
  have e: "uu_email ex_update = None" by (simp add: ex_update_def)
  have nv: "\<not> no_values ex_update" by (simp add: no_values_def ex_update_def)
  show ?thesis
    using a d m i de c e nv
      update_user_cases [where user_id = 9 and s = ?s and P = ?P and user = ex_update
        and u = ex_user]
      update_user_cases [where user_id = 7 and s = ?s and P = ?P and user = ex_update
        and u = ex_user]
    by (simp add: Let_def toks new ex_access_def)
qed

text \<open>
  Claim C8. A profile update with no field at all (\<open>nud = {}\<close>) for a user id no row holds:
  the UPDATE with nothing to set fails when it is executed, before the commit, before the
  purge of the AccessTokens and before the 404 that the docstring promises for an unknown
  id. Here the table holds user 7 only, user 9 has a stale token, and the request is for
  user 9: the operation ends in the database error and the stale token stays.
\<close>

theorem update_user_empty_request_no_purge:
  "no_values ex_no_update
   \<and> 9 \<notin> u_id ` set (users (work (open_session ex_db_users 50)))
   \<and> update_user (src_prims (\<lambda>p h. True)) 9 ex_no_update (open_session ex_db_users 50)
       = (Inl DatabaseError, open_session ex_db_users 50)
   \<and> access_tokens (work (open_session ex_db_users 50))
       = [ex_access ''tok-a'' 7, ex_access ''tok-b'' 9]
   \<and> fst (update_user (src_prims (\<lambda>p h. True)) 9 ex_no_update (open_session ex_db_users 50))
       \<noteq> Inl (HTTPException 404 ''User not found'')"
proof -
  have nv: "no_values ex_no_update" by (simp add: no_values_def ex_no_update_def)
  have absent: "9 \<notin> u_id ` set (users (work (open_session ex_db_users 50)))"
    by (simp add: open_session_def ex_db_users_def empty_db_def ex_user_def)
  have toks: "access_tokens (work (open_session ex_db_users 50))
              = [ex_access ''tok-a'' 7, ex_access ''tok-b'' 9]"
    by (simp add: open_session_def ex_db_users_def empty_db_def)
  show ?thesis
    using nv absent toks by (simp add: update_user_no_values [OF nv])
qed

section \<open>Hard delete\<close>

lemma work_delete_email_tokens [simp]:
  "work (delete_email_tokens email s) =
     (work s)\<lparr>email_tokens := filter (\<lambda>r. et_email r \<noteq> email) (email_tokens (work s))\<rparr>"
  by (simp add: delete_email_tokens_def)

lemma durable_delete_email_tokens [simp]:
  "durable (delete_email_tokens email s) = work (delete_email_tokens email s)"
  by (simp add: delete_email_tokens_def)

lemma past_delete_email_tokens [simp]:
  "past (delete_email_tokens email s) = durable s # past s"
  by (simp add: delete_email_tokens_def)

lemma draws_delete_email_tokens [simp]: "draws (delete_email_tokens email s) = draws s"
  by (simp add: delete_email_tokens_def)

lemma clock_delete_email_tokens [simp]: "clock (delete_email_tokens email s) = clock s"
  by (simp add: delete_email_tokens_def)

lemma hard_delete_user_absent:
  assumes "user_id \<notin> u_id ` set (users (work s))"
  shows "hard_delete_user user_id s = (Inl AttributeError, s)"
  using filter_key_absent [OF assms] by (simp add: hard_delete_user_def)

lemma hard_delete_user_present:
  assumes "distinct (map u_id (users (work s)))" and "u \<in> set (users (work s))"
    and "u_id u = user_id"
  shows "hard_delete_user user_id s =
    (Inr ''User deleted successfully'',
     delete_email_tokens (u_email u)
       (commit ((logout_user user_id s)\<lparr>work := (work (logout_user user_id s))\<lparr>users :=
          filter (\<lambda>v. u_id v \<noteq> user_id) (users (work s))\<rparr>\<rparr>)))"
  using filter_key_unique [of u_id, OF assms(1,2)] assms(3)
  by (simp add: hard_delete_user_def Let_def)

text \<open>
  When the row exists, hard delete removes it together with the AccessTokens of the user
  and the EmailTokens of the user's email, commits, and a later login with that email
  answers 404.
\<close>

lemma hard_delete_user_removes:
  assumes "distinct (map u_id (users (work s)))" and "u \<in> set (users (work s))"
    and "u_id u = user_id"
  shows "(let s' = snd (hard_delete_user user_id s)
          in fst (hard_delete_user user_id s) = Inr ''User deleted successfully''
           \<and> users (work s') = filter (\<lambda>v. u_id v \<noteq> user_id) (users (work s))
           \<and> access_tokens (work s')
               = filter (\<lambda>t. at_user_id t \<noteq> user_id) (access_tokens (work s))
           \<and> email_tokens (work s')
               = filter (\<lambda>r. et_email r \<noteq> u_email u) (email_tokens (work s))
           \<and> durable s' = work s'
           \<and> (distinct (map u_email (users (work s))) \<longrightarrow>
                fst (login_user P \<lparr>ul_email = u_email u, ul_password = pw\<rparr> s')
                  = Inl (HTTPException 404 ''User not found'')))"
proof -
  let ?s' = "snd (hard_delete_user user_id s)"
  have us: "users (work ?s') = filter (\<lambda>v. u_id v \<noteq> user_id) (users (work s))"
    by (simp add: hard_delete_user_present [OF assms])
  have gone: "filter (\<lambda>v. u_email v = u_email u) (users (work ?s')) = []"
    if de: "distinct (map u_email (users (work s)))"
  proof -
    have one: "filter (\<lambda>v. u_email v = u_email u) (users (work s)) = [u]"
      by (rule filter_key_unique [OF de assms(2)])
    have "v = u" if "v \<in> set (users (work s))" "u_email v = u_email u" for v
    proof -
      from that have "v \<in> set (filter (\<lambda>v. u_email v = u_email u) (users (work s)))" by simp
      with one show ?thesis by simp
    qed
    then show ?thesis using us assms(3) by (auto simp: filter_empty_conv)
  qed
  show ?thesis
    unfolding Let_def
    using gone by (simp add: hard_delete_user_present [OF assms] login_user_def)
qed

text \<open>
  Claim C5. When no User row holds the id, \<open>hard_delete_user\<close> reads \<open>user.email\<close> off
  \<open>None\<close> before it deletes anything: it ends in AttributeError, and the 404 of the
  \<open>rowcount == 0\<close> branch, which its docstring promises, is never reached. Here the table
  holds user 7 only and the request is for user 9.
\<close>

theorem hard_delete_user_missing_row:
  "hard_delete_user 9 (open_session ex_db_users 50) = (Inl AttributeError, open_session ex_db_users 50)
   \<and> 9 \<notin> u_id ` set (users (work (open_session ex_db_users 50)))
   \<and> fst (hard_delete_user 9 (open_session ex_db_users 50)) \<noteq> Inl (HTTPException 404 ''User not found'')"
  by (simp add: hard_delete_user_def open_session_def ex_db_users_def empty_db_def ex_user_def)

section \<open>Email-token validation\<close>

lemma validate_email_token_absent:
  assumes "token \<notin> et_token ` set (email_tokens (work s))"
  shows "validate_email_token token s = (Inl (HTTPException 404 ''Token not found''), s)"
  using filter_key_absent [OF assms] by (simp add: validate_email_token_def)

lemma validate_email_token_present:
  assumes "distinct (map et_token (email_tokens (work s)))" and "r \<in> set (email_tokens (work s))"
    and "et_token r = token"
  shows "validate_email_token token s
         = (Inl (HTTPException 401 ''Token expired''), delete_email_tokens (et_email r) s)"
  using filter_key_unique [of et_token, OF assms(1,2)] assms(3)
  by (simp add: validate_email_token_def truthy_def)

lemma validate_email_token_raises:
  "\<exists>e s1. validate_email_token token s = (Inl e, s1)"
  by (cases "filter (\<lambda>r. et_token r = token) (email_tokens (work s))"
        rule: scalar_one_or_none.cases)
     (simp_all add: validate_email_token_def truthy_def)

lemma create_user_fails: "fst (create_user P token s) \<noteq> Inr access_token"
proof -
  obtain e s1 where "validate_email_token token s = (Inl e, s1)"
    using validate_email_token_raises by blast
  then show ?thesis by (simp add: create_user_def)
qed

lemma reset_password_fails: "fst (reset_password P token password s) \<noteq> Inr r"
proof -
  obtain e s1 where "validate_email_token token s = (Inl e, s1)"
    using validate_email_token_raises by blast
  then show ?thesis by (simp add: reset_password_def)
qed

lemmas email_defs = validate_email_def is_alpha_def is_digit_def local_char_def domain_char_def

text \<open>
  Claim C4. The condition of the expiry branch of \<open>_validate_email_token\<close> is the string
  literal \<open>"The token timestamp is too old"\<close>, which is true for Python, so every token that
  exists is rejected as expired whatever its age, and its email's tokens are deleted. Here
  the token was created at the very second of the request (age 0, inside the 60 minutes).
\<close>

theorem validate_email_token_rejects_fresh_token:
  "clock (open_session (empty_db\<lparr>email_tokens := [ex_email_token 100]\<rparr>) 100)
     - et_created_at (ex_email_token 100) < 60 * 60
   \<and> et_token (ex_email_token 100) = ''link-1''
   \<and> fst (validate_email_token ''link-1''
            (open_session (empty_db\<lparr>email_tokens := [ex_email_token 100]\<rparr>) 100))
       = Inl (HTTPException 401 ''Token expired'')
   \<and> email_tokens (work (snd (validate_email_token ''link-1''
            (open_session (empty_db\<lparr>email_tokens := [ex_email_token 100]\<rparr>) 100)))) = []"
  by (simp add: validate_email_token_def truthy_def open_session_def empty_db_def
        ex_email_token_def)

text \<open>
  Claim C2. Registration on an empty database succeeds and returns the token; confirming
  that token at once ends in 401 "Token expired" (the same defect as for C4), no User is
  created, and the login that follows answers 404.
\<close>

theorem register_confirm_never_creates_user:
  "validate_email (uc_email alice)
   \<and> fst (create_email_token (src_prims (\<lambda>p h. True)) alice (open_session empty_db 100))
       = Inr src_token
   \<and> fst (create_user (src_prims (\<lambda>p h. True)) src_token
            (snd (create_email_token (src_prims (\<lambda>p h. True)) alice (open_session empty_db 100))))
       = Inl (HTTPException 401 ''Token expired'')
   \<and> fst (login_user (src_prims (\<lambda>p h. True))
            \<lparr>ul_email = ''alice@example.com'', ul_password = ''pw1''\<rparr>
            (snd (create_user (src_prims (\<lambda>p h. True)) src_token
              (snd (create_email_token (src_prims (\<lambda>p h. True)) alice
                (open_session empty_db 100))))))
       = Inl (HTTPException 404 ''User not found'')"
proof -
  let ?P = "src_prims (\<lambda>p h. True)"
  let ?s0 = "open_session empty_db 100"
  let ?row = "\<lparr>et_email = ''alice@example.com'', et_password = ''Super secret'',
               et_token = src_token, et_created_at = 100\<rparr>"
  let ?s1 = "commit (?s0\<lparr>draws := 1, work := empty_db\<lparr>email_tokens := [?row]\<rparr>\<rparr>)"
  have valid: "validate_email (uc_email alice)"
    by (simp add: alice_def email_defs)
  have reg: "create_email_token ?P alice ?s0 = (Inr src_token, ?s1)"
    using valid
    by (simp add: create_email_token_def check_existing_user_def post_email_token_def
          generate_token_def hash_password_def insert_email_token_def src_prims_def
          open_session_def empty_db_def alice_def)
  have conf: "create_user ?P src_token ?s1
              = (Inl (HTTPException 401 ''Token expired''),
                 delete_email_tokens ''alice@example.com'' ?s1)"
    by (simp add: create_user_def validate_email_token_def truthy_def)
  have login: "fst (login_user ?P \<lparr>ul_email = ''alice@example.com'', ul_password = ''pw1''\<rparr>
                 (delete_email_tokens ''alice@example.com'' ?s1))
               = Inl (HTTPException 404 ''User not found'')"
    by (simp add: login_user_def empty_db_def)
  show ?thesis
    unfolding reg conf fst_conv snd_conv using valid login by blast
qed

section \<open>Registration\<close>

lemma work_rollback [simp]: "work (rollback s) = durable s"
  by (simp add: rollback_def)

lemma durable_rollback [simp]: "durable (rollback s) = durable s"
  by (simp add: rollback_def)

lemma past_rollback [simp]: "past (rollback s) = past s"
  by (simp add: rollback_def)

lemma draws_rollback [simp]: "draws (rollback s) = draws s"
  by (simp add: rollback_def)

lemma clock_rollback [simp]: "clock (rollback s) = clock s"
  by (simp add: rollback_def)

lemma post_email_token_collision:
  assumes "token_at P (draws s) \<in> et_token ` set (email_tokens (work s))"
  shows "post_email_token P user s = (Inl IntegrityError, s\<lparr>draws := Suc (draws s)\<rparr>)"
  using assms
  by (auto simp: post_email_token_def generate_token_def insert_email_token_def)

lemma post_email_token_inserted:
  assumes "token_at P (draws s) \<notin> et_token ` set (email_tokens (work s))"
  shows "post_email_token P user s =
    (Inr (token_at P (draws s)),
     commit (s\<lparr>draws := Suc (draws s),
               work := (work s)\<lparr>email_tokens := email_tokens (work s)
                 @ [new_email_token P user (token_at P (draws s)) (clock s)]\<rparr>\<rparr>))"
  using assms
  by (simp add: post_email_token_def generate_token_def insert_email_token_def
        new_email_token_def hash_password_def)










section \<open>Issuing an access token\<close>

lemma create_access_token_collision:
  assumes "token_at P (draws s)
             \<in> at_token ` set (filter (\<lambda>t. at_user_id t \<noteq> user_id) (access_tokens (work s)))"
  shows "create_access_token P user_id s
         = (Inl IntegrityError, (logout_user user_id s)\<lparr>draws := Suc (draws s)\<rparr>)"
  using assms
  by (simp add: create_access_token_def generate_token_def insert_access_token_def Let_def)

lemma create_access_token_inserted:
  assumes "token_at P (draws s)
             \<notin> at_token ` set (filter (\<lambda>t. at_user_id t \<noteq> user_id) (access_tokens (work s)))"
  shows "create_access_token P user_id s
         = (Inr (token_at P (draws s)),
            commit ((logout_user user_id s)\<lparr>draws := Suc (draws s),
              work := (work (logout_user user_id s))\<lparr>access_tokens :=
                filter (\<lambda>t. at_user_id t \<noteq> user_id) (access_tokens (work s))
                  @ [new_access_token (token_at P (draws s)) user_id]\<rparr>\<rparr>))"
  using assms
  by (simp add: create_access_token_def generate_token_def insert_access_token_def Let_def
        new_access_token_def)

text \<open>
  Claim C6, as the code has it. \<open>_create_access_token\<close> calls \<open>logout_user\<close>, which commits
  the deletion of the user's AccessTokens on its own; that committed snapshot shows the user
  with no token. Only then is the new token inserted. If the insertion succeeds it is
  committed by a second commit, and the user has the new token only; if it collides, the
  operation ends in IntegrityError and the committed deletion stays.
\<close>

theorem create_access_token_commits:
  "(let s1 = logout_user user_id s;
        s' = snd (create_access_token P user_id s);
        token = token_at P (draws s)
    in durable s1 = work s1 \<and> past s1 = durable s # past s
     \<and> access_tokens (durable s1)
         = filter (\<lambda>t. at_user_id t \<noteq> user_id) (access_tokens (work s))
     \<and> user_id \<notin> at_user_id ` set (access_tokens (durable s1))
     \<and> (token \<in> at_token ` set (access_tokens (work s1)) \<longrightarrow>
          create_access_token P user_id s = (Inl IntegrityError, s1\<lparr>draws := Suc (draws s)\<rparr>))
     \<and> (token \<notin> at_token ` set (access_tokens (work s1)) \<longrightarrow>
          fst (create_access_token P user_id s) = Inr token
          \<and> durable s' = work s'
          \<and> past s' = durable s1 # durable s # past s
          \<and> access_tokens (durable s')
              = access_tokens (durable s1) @ [new_access_token token user_id]))"
proof (cases "token_at P (draws s)
             \<in> at_token ` set (filter (\<lambda>t. at_user_id t \<noteq> user_id) (access_tokens (work s)))")
  case True
  show ?thesis
    unfolding Let_def using True
    by (auto simp: create_access_token_collision [OF True])
next
  case False
  show ?thesis
    unfolding Let_def using False
    by (auto simp: create_access_token_inserted [OF False])
qed

theorem create_access_token_commits_witness:
  "token_at ex_prims (draws (open_session ex_db_users 50))
     \<notin> at_token ` set (access_tokens (work (logout_user 7 (open_session ex_db_users 50))))
   \<and> fst (create_access_token ex_prims 7 (open_session ex_db_users 50)) = Inr ''t''
   \<and> access_tokens (durable (snd (create_access_token ex_prims 7 (open_session ex_db_users 50))))
       = [ex_access ''tok-b'' 9, new_access_token ''t'' 7]
   \<and> token_at ex_prims (draws (open_session ex_db_users 50))
     \<in> at_token ` set (access_tokens (work (logout_user 9
          ((open_session ex_db_users 50)\<lparr>work := ex_db_users\<lparr>access_tokens :=
              [ex_access ''t'' 7]\<rparr>\<rparr>))))
   \<and> fst (create_access_token ex_prims 9
          ((open_session ex_db_users 50)\<lparr>work := ex_db_users\<lparr>access_tokens :=
              [ex_access ''t'' 7]\<rparr>\<rparr>)) = Inl IntegrityError"
proof -
  let ?s = "open_session ex_db_users 50"
  let ?c = "?s\<lparr>work := ex_db_users\<lparr>access_tokens := [ex_access ''t'' 7]\<rparr>\<rparr>"
  have tok: "token_at ex_prims (draws ?s) = ''t''"
    by (simp add: ex_prims_def open_session_def)
  have rows: "access_tokens (work (logout_user 7 ?s)) = [ex_access ''tok-b'' 9]"
    by (simp add: open_session_def ex_db_users_def empty_db_def ex_access_def)
  have free: "token_at ex_prims (draws ?s)
     \<notin> at_token ` set (access_tokens (work (logout_user 7 ?s)))"
    unfolding rows tok by (simp add: ex_access_def)
  have dur: "access_tokens (durable (logout_user 7 ?s)) = [ex_access ''tok-b'' 9]"
    using rows by simp
  note T = create_access_token_commits [of 7 ?s ex_prims, unfolded Let_def]
  from T free have a: "fst (create_access_token ex_prims 7 ?s) = Inr (token_at ex_prims (draws ?s))"
    by blast
  from T free
  have b: "access_tokens (durable (snd (create_access_token ex_prims 7 ?s)))
           = access_tokens (durable (logout_user 7 ?s))
               @ [new_access_token (token_at ex_prims (draws ?s)) 7]"
    by blast
  have tokc: "token_at ex_prims (draws ?c) = ''t''"
    by (simp add: ex_prims_def open_session_def)
  have rowsc: "access_tokens (work (logout_user 9 ?c)) = [ex_access ''t'' 7]"
    by (simp add: ex_access_def)
  have taken: "token_at ex_prims (draws ?c)
     \<in> at_token ` set (access_tokens (work (logout_user 9 ?c)))"
    unfolding rowsc tokc by (simp add: ex_access_def)
  note U = create_access_token_commits [of 9 ?c ex_prims, unfolded Let_def]
  from U taken have c: "fst (create_access_token ex_prims 9 ?c) = Inl IntegrityError"
    by (metis fst_conv)
  have draws_eq: "draws ?c = draws ?s" by simp
  show ?thesis
    using free a b taken c unfolding dur tok draws_eq by simp
qed

text \<open>
  Claim C6, as stated, fails: user 7 holds a token, the insertion of the new one succeeds,
  and still the snapshot committed in between (the first entry of \<open>past\<close>) holds no token
  of user 7.
\<close>

theorem deletion_committed_before_insertion:
  "7 \<in> at_user_id ` set (access_tokens (durable (open_session ex_db_users 50)))
   \<and> fst (create_access_token (src_prims (\<lambda>p h. True)) 7 (open_session ex_db_users 50))
       = Inr src_token
   \<and> past (snd (create_access_token (src_prims (\<lambda>p h. True)) 7 (open_session ex_db_users 50)))
       = [ex_db_users\<lparr>access_tokens := [ex_access ''tok-b'' 9]\<rparr>, ex_db_users]
   \<and> 7 \<notin> at_user_id ` set (access_tokens (ex_db_users\<lparr>access_tokens := [ex_access ''tok-b'' 9]\<rparr>))"
proof -
  let ?s = "open_session ex_db_users 50"
  let ?P = "src_prims (\<lambda>p h. True)"
  have rows: "filter (\<lambda>t. at_user_id t \<noteq> 7) (access_tokens (work ?s)) = [ex_access ''tok-b'' 9]"
    by (simp add: open_session_def ex_db_users_def empty_db_def ex_access_def)
  have tok: "token_at ?P (draws ?s) = src_token" by (simp add: src_prims_def)
  have free: "token_at ?P (draws ?s)
      \<notin> at_token ` set (filter (\<lambda>t. at_user_id t \<noteq> 7) (access_tokens (work ?s)))"
    unfolding rows tok by (simp add: ex_access_def src_token_def)
  have before: "7 \<in> at_user_id ` set (access_tokens (durable ?s))"
    by (simp add: open_session_def ex_db_users_def empty_db_def ex_access_def)
  have mid: "work (logout_user 7 ?s) = ex_db_users\<lparr>access_tokens := [ex_access ''tok-b'' 9]\<rparr>"
    by (simp add: open_session_def ex_db_users_def empty_db_def ex_access_def)
  have old: "durable ?s = ex_db_users" "past ?s = []" by (simp_all add: open_session_def)
  show ?thesis
    unfolding create_access_token_inserted [OF free] tok fst_conv snd_conv
    using before
    by (simp add: open_session_def ex_db_users_def empty_db_def ex_access_def)
qed

section \<open>One access token per user\<close>

lemma token_inv_commit [simp]: "token_inv (commit s) = token_inv s"
  by (auto simp: token_inv_def commit_def)

lemma token_inv_rollback: "token_inv s \<Longrightarrow> token_inv (rollback s)"
  by (simp add: token_inv_def rollback_def)

lemma token_inv_draws [simp]: "token_inv (s\<lparr>draws := n\<rparr>) = token_inv s"
  by (simp add: token_inv_def)

lemma token_inv_work:
  "token_inv s \<Longrightarrow> access_tokens d = access_tokens (work s) \<Longrightarrow> token_inv (s\<lparr>work := d\<rparr>)"
  by (simp add: token_inv_def one_token_per_user_def)

lemma token_inv_work_filter:
  "token_inv s \<Longrightarrow> access_tokens d = filter p (access_tokens (work s))
   \<Longrightarrow> token_inv (s\<lparr>work := d\<rparr>)"
  by (simp add: token_inv_def one_token_per_user_def distinct_map_filter)

lemma token_inv_logout: "token_inv s \<Longrightarrow> token_inv (logout_user user_id s)"
  unfolding logout_user_def token_inv_commit
  by (rule token_inv_work_filter [where p = "\<lambda>t. at_user_id t \<noteq> user_id"]) simp_all

lemma token_inv_delete_email_tokens:
  "token_inv s \<Longrightarrow> token_inv (delete_email_tokens email s)"
  unfolding delete_email_tokens_def token_inv_commit
  by (rule token_inv_work) simp_all

lemma token_inv_create_access_token:
  assumes "token_inv s"
  shows "token_inv (snd (create_access_token P user_id s))"
proof (cases "token_at P (draws s)
             \<in> at_token ` set (filter (\<lambda>t. at_user_id t \<noteq> user_id) (access_tokens (work s)))")
  case True
  show ?thesis
    using token_inv_logout [OF assms, of user_id]
    by (simp add: create_access_token_collision [OF True])
next
  case False
  let ?s1 = "logout_user user_id s"
  have inv1: "token_inv ?s1" by (rule token_inv_logout [OF assms])
  have "distinct (map at_user_id (filter (\<lambda>t. at_user_id t \<noteq> user_id) (access_tokens (work s))
          @ [new_access_token (token_at P (draws s)) user_id]))"
    using assms by (auto simp: token_inv_def one_token_per_user_def distinct_map_filter
        new_access_token_def)
  with inv1 show ?thesis
    by (simp add: create_access_token_inserted [OF False] token_inv_def one_token_per_user_def)
qed

lemma token_inv_activate_user:
  assumes "token_inv s"
  shows "token_inv (snd (activate_user user_id s))"
proof -
  let ?s1 = "s\<lparr>work := (work s)\<lparr>users :=
      update_where (\<lambda>u. u_id u = user_id) (\<lambda>u. u\<lparr>u_is_active := True\<rparr>) (users (work s))\<rparr>\<rparr>"
  have inv1: "token_inv ?s1" by (rule token_inv_work [OF assms]) simp
  then have "token_inv (logout_user user_id (commit ?s1))"
    by (simp add: token_inv_logout)
  with inv1 show ?thesis
    by (simp add: activate_user_def Let_def split: sum.splits option.splits)
qed

lemma token_inv_deactivate_user:
  assumes "token_inv s"
  shows "token_inv (snd (deactivate_user user_id s))"
proof -
  let ?s0 = "logout_user user_id s"
  let ?s1 = "?s0\<lparr>work := (work ?s0)\<lparr>users :=
      update_where (\<lambda>u. u_id u = user_id) (\<lambda>u. u\<lparr>u_is_active := False\<rparr>) (users (work ?s0))\<rparr>\<rparr>"
  have "token_inv ?s0" by (rule token_inv_logout [OF assms])
  then have inv1: "token_inv ?s1" by (rule token_inv_work) simp
  then show ?thesis
    by (simp add: deactivate_user_def Let_def split: sum.splits option.splits)
qed

lemma update_user_rows_tokens:
  "update_user_rows user_id n d = Inr d' \<Longrightarrow> access_tokens d' = access_tokens d"
  by (auto simp: update_user_rows_def Let_def split: if_splits)

lemma token_inv_update_user:
  assumes "token_inv s"
  shows "token_inv (snd (update_user P user_id user s))"
proof (cases "update_user_rows user_id (nud P user) (work s)")
  case (Inl e)
  with assms show ?thesis by (simp add: update_user_def)
next
  case (Inr d)
  have inv1: "token_inv (s\<lparr>work := d\<rparr>)"
    by (rule token_inv_work [OF assms update_user_rows_tokens [OF Inr]])
  then have "token_inv (logout_user user_id (commit (s\<lparr>work := d\<rparr>)))"
    by (simp add: token_inv_logout)
  with inv1 Inr show ?thesis
    by (simp add: update_user_def Let_def split: sum.splits option.splits)
qed

lemma token_inv_hard_delete_user:
  assumes "token_inv s"
  shows "token_inv (snd (hard_delete_user user_id s))"
proof -
  let ?s1 = "logout_user user_id s"
  let ?s2 = "?s1\<lparr>work := (work ?s1)\<lparr>users :=
                filter (\<lambda>u. u_id u \<noteq> user_id) (users (work ?s1))\<rparr>\<rparr>"
  have "token_inv ?s1" by (rule token_inv_logout [OF assms])
  then have inv2: "token_inv ?s2" by (rule token_inv_work) simp
  then have "token_inv (delete_email_tokens email (commit ?s2))" for email
    by (simp add: token_inv_delete_email_tokens)
  with inv2 assms show ?thesis
    by (simp add: hard_delete_user_def Let_def split: sum.splits option.splits)
qed

lemma token_inv_post_email_token:
  assumes "token_inv s"
  shows "token_inv (snd (post_email_token P user s))"
proof (cases "token_at P (draws s) \<in> et_token ` set (email_tokens (work s))")
  case True
  with assms show ?thesis by (simp add: post_email_token_collision [OF True])
next
  case False
  have "token_inv (s\<lparr>work := (work s)\<lparr>email_tokens := email_tokens (work s)
           @ [new_email_token P user (token_at P (draws s)) (clock s)]\<rparr>\<rparr>)"
    by (rule token_inv_work [OF assms]) simp
  then show ?thesis
    by (simp add: post_email_token_inserted [OF False] token_inv_def)
qed

lemma token_inv_create_email_token:
  assumes "token_inv s"
  shows "token_inv (snd (create_email_token P user s))"
proof (cases "validate_email (uc_email user)
              \<and> check_existing_user (uc_email user) s = Inr False")
  case False
  with assms show ?thesis
    by (auto simp: create_email_token_def split: sum.splits bool.splits)
next
  case True
  obtain res s1 where post: "post_email_token P user s = (res, s1)"
    by (cases "post_email_token P user s")
  have inv1: "token_inv s1"
    using token_inv_post_email_token [OF assms, of P user] post by simp
  then have "token_inv (delete_email_tokens (uc_email user) (rollback s1))"
    by (simp add: token_inv_delete_email_tokens token_inv_rollback)
  then have "token_inv (snd (post_email_token P user
               (delete_email_tokens (uc_email user) (rollback s1))))"
    by (rule token_inv_post_email_token)
  with True post inv1 show ?thesis
    by (simp add: create_email_token_def split: sum.splits error.splits)
qed

lemma token_inv_validate_email_token:
  assumes "token_inv s"
  shows "token_inv (snd (validate_email_token token s))"
  using assms token_inv_delete_email_tokens [OF assms]
  by (simp add: validate_email_token_def split: sum.splits option.splits)

lemma update_email_token_rows_tokens:
  "update_email_token_rows email new_token now d = Inr d' \<Longrightarrow> access_tokens d' = access_tokens d"
  by (auto simp: update_email_token_rows_def Let_def split: if_splits)

lemma token_inv_update_email_token:
  assumes "token_inv s"
  shows "token_inv (snd (update_email_token P email s))"
proof (cases "update_email_token_rows email (token_at P (draws s)) (clock s) (work s)")
  case (Inl e)
  with assms show ?thesis
    by (simp add: update_email_token_def generate_token_def split: sum.splits option.splits)
next
  case (Inr d)
  have "token_inv (s\<lparr>work := d\<rparr>)"
    by (rule token_inv_work [OF assms update_email_token_rows_tokens [OF Inr]])
  then have "token_inv (s\<lparr>draws := Suc (draws s), work := d\<rparr>)"
    by (simp add: token_inv_def)
  with assms Inr show ?thesis
    by (simp add: update_email_token_def generate_token_def split: sum.splits option.splits)
qed

lemma token_inv_create_user:
  assumes "token_inv s"
  shows "token_inv (snd (create_user P token s))"
proof -
  obtain e s1 where v: "validate_email_token token s = (Inl e, s1)"
    using validate_email_token_raises by blast
  with token_inv_validate_email_token [OF assms, of token] show ?thesis
    by (simp add: create_user_def)
qed

lemma token_inv_reset_password:
  assumes "token_inv s"
  shows "token_inv (snd (reset_password P token password s))"
proof -
  obtain e s1 where v: "validate_email_token token s = (Inl e, s1)"
    using validate_email_token_raises by blast
  with token_inv_validate_email_token [OF assms, of token] show ?thesis
    by (simp add: reset_password_def)
qed

lemma token_inv_login_user:
  assumes "token_inv s"
  shows "token_inv (snd (login_user P user s))"
proof -
  have act: "token_inv (snd (activate_user uid s))" for uid
    by (rule token_inv_activate_user [OF assms])
  have tok: "token_inv (snd (create_access_token P uid s1))" if "token_inv s1" for uid s1
    by (rule token_inv_create_access_token [OF that])
  show ?thesis
    using assms act tok
    by (auto simp: login_user_def split: sum.splits option.splits prod.splits if_splits)
       (metis snd_conv)+
qed

lemma insert_game_session_tokens:
  "insert_game_session r d = Inr d' \<Longrightarrow> access_tokens d' = access_tokens d"
  by (auto simp: insert_game_session_def split: if_splits)

lemma token_inv_save_game_route:
  assumes "token_inv s"
  shows "token_inv (snd (save_game_route P data user_id s))"
proof (cases "gsi_id (sg_game_session data)")
  case None
  show ?thesis
  proof (cases "insert_game_session
      \<lparr>gs_id = uuid_at P (draws s), gs_user_id = user_id, gs_last_image = sg_image data,
         gs_protagonist_name = gsi_protagonist_name (sg_game_session data),
         gs_session_name = gsi_session_name (sg_game_session data),
         gs_inventory = gsi_inventory (sg_game_session data),
         gs_stories = gsi_scenes (sg_game_session data),
         gs_updated_at = clock s\<rparr> (work s)")
    case (Inl e)
    with None assms show ?thesis by (simp add: save_game_route_def uuid4_def)
  next
    case (Inr d)
    have "token_inv (s\<lparr>work := d\<rparr>)"
      by (rule token_inv_work [OF assms insert_game_session_tokens [OF Inr]])
    then have "token_inv (s\<lparr>draws := Suc (draws s), work := d\<rparr>)"
      by (simp add: token_inv_def)
    with None Inr show ?thesis by (simp add: save_game_route_def uuid4_def)
  qed
next
  case (Some game_id)
  have "token_inv (s\<lparr>work := (work s)\<lparr>game_sessions := g\<rparr>\<rparr>)" for g
    by (rule token_inv_work [OF assms]) simp
  with Some assms show ?thesis
    by (simp add: save_game_route_def Let_def split: sum.splits option.splits)
qed

lemma token_inv_perform: "token_inv s \<Longrightarrow> token_inv (perform P rq s)"
  by (cases rq)
     (simp_all add: token_inv_create_email_token token_inv_create_user token_inv_login_user
        token_inv_logout token_inv_update_user token_inv_activate_user token_inv_deactivate_user
        token_inv_hard_delete_user token_inv_update_email_token token_inv_reset_password
        token_inv_save_game_route)

lemma create_access_token_success:
  assumes "create_access_token P uid s = (Inr t, s')"
  shows "access_tokens (work s')
           = filter (\<lambda>k. at_user_id k \<noteq> uid) (access_tokens (work s)) @ [new_access_token t uid]"
    and "t \<notin> at_token ` set (filter (\<lambda>k. at_user_id k \<noteq> uid) (access_tokens (work s)))"
    and "users (work s') = users (work s)"
proof -
  have free: "token_at P (draws s)
      \<notin> at_token ` set (filter (\<lambda>t. at_user_id t \<noteq> uid) (access_tokens (work s)))"
  proof
    assume "token_at P (draws s)
      \<in> at_token ` set (filter (\<lambda>t. at_user_id t \<noteq> uid) (access_tokens (work s)))"
    from create_access_token_collision [OF this] assms show False by simp
  qed
  from create_access_token_inserted [OF free] assms
  have t: "t = token_at P (draws s)"
    and s': "s' = commit ((logout_user uid s)\<lparr>draws := Suc (draws s),
              work := (work (logout_user uid s))\<lparr>access_tokens :=
                filter (\<lambda>t. at_user_id t \<noteq> uid) (access_tokens (work s))
                  @ [new_access_token (token_at P (draws s)) uid]\<rparr>\<rparr>)"
    by simp_all
  show "access_tokens (work s')
           = filter (\<lambda>k. at_user_id k \<noteq> uid) (access_tokens (work s)) @ [new_access_token t uid]"
    by (simp add: s' t)
  show "t \<notin> at_token ` set (filter (\<lambda>k. at_user_id k \<noteq> uid) (access_tokens (work s)))"
    using free t by simp
  show "users (work s') = users (work s)"
    by (simp add: s')
qed

lemma activate_user_success:
  assumes "activate_user uid s = (Inr x, s')"
  shows "access_tokens (work s') = access_tokens (work s)"
    and "users (work s')
         = update_where (\<lambda>u. u_id u = uid) (\<lambda>u. u\<lparr>u_is_active := True\<rparr>) (users (work s))"
  using assms
  by (auto simp: activate_user_def Let_def split: sum.splits option.splits)

lemma login_user_success:
  assumes "login_user P user s = (Inr t, s')"
  shows "\<exists>db_user db_user'.
           filter (\<lambda>u. u_email u = ul_email user) (users (work s)) = [db_user]
         \<and> access_tokens (work s')
             = filter (\<lambda>k. at_user_id k \<noteq> u_id db_user) (access_tokens (work s))
                 @ [new_access_token t (u_id db_user)]
         \<and> t \<notin> at_token ` set (filter (\<lambda>k. at_user_id k \<noteq> u_id db_user)
                                   (access_tokens (work s)))
         \<and> filter (\<lambda>u. u_email u = ul_email user) (users (work s')) = [db_user']
         \<and> u_id db_user' = u_id db_user"
proof (cases "filter (\<lambda>u. u_email u = ul_email user) (users (work s))"
        rule: scalar_one_or_none.cases)
  case 1
  with assms show ?thesis by (simp add: login_user_def)
next
  case (3 x y zs)
  with assms show ?thesis by (simp add: login_user_def)
next
  case (2 db_user)
  let ?uid = "u_id db_user"
  from assms 2 have pw: "checkpw P (ul_password user) (u_password db_user)"
    by (auto simp: login_user_def split: if_splits)
  show ?thesis
  proof (cases "u_is_active db_user")
    case True
    with assms 2 pw have tok: "create_access_token P ?uid s = (Inr t, s')"
      by (simp add: login_user_def)
    from create_access_token_success [OF tok] 2 show ?thesis by simp
  next
    case False
    obtain r s1 where act: "activate_user ?uid s = (r, s1)"
      by (cases "activate_user ?uid s")
    with assms 2 pw False obtain x where r: "r = Inr x"
      by (cases r) (simp_all add: login_user_def)
    with assms 2 pw False act have tok: "create_access_token P ?uid s1 = (Inr t, s')"
      by (simp add: login_user_def)
    note a = activate_user_success [OF act [unfolded r]]
    note c = create_access_token_success [OF tok]
    have "filter (\<lambda>u. u_email u = ul_email user) (users (work s'))
          = update_where (\<lambda>u. u_id u = ?uid) (\<lambda>u. u\<lparr>u_is_active := True\<rparr>)
              (filter (\<lambda>u. u_email u = ul_email user) (users (work s)))"
      unfolding c(3) a(2) by (rule filter_update_where) simp
    with 2 have "filter (\<lambda>u. u_email u = ul_email user) (users (work s'))
                 = [db_user\<lparr>u_is_active := True\<rparr>]"
      by simp
    with 2 c(1,2) a(1) show ?thesis by simp
  qed
qed

lemma two_logins:
  assumes "login_user P user s = (Inr t1, s1)" and "login_user P user s1 = (Inr t2, s2)"
    and "t1 \<noteq> t2"
  shows "validate_token t1 s2 = Inl (HTTPException 401 ''Invalid token'')"
    and "validate_token t2 s2 = validate_token t1 s1"
    and "\<exists>uid. validate_token t2 s2 = Inr uid"
proof -
  from login_user_success [OF assms(1)] obtain u u' where
    h1: "filter (\<lambda>u. u_email u = ul_email user) (users (work s)) = [u]
         \<and> access_tokens (work s1)
             = filter (\<lambda>k. at_user_id k \<noteq> u_id u) (access_tokens (work s))
                 @ [new_access_token t1 (u_id u)]
         \<and> t1 \<notin> at_token ` set (filter (\<lambda>k. at_user_id k \<noteq> u_id u)
                                   (access_tokens (work s)))
         \<and> filter (\<lambda>u. u_email u = ul_email user) (users (work s1)) = [u']
         \<and> u_id u' = u_id u"
    by (elim exE)
  then have
    rows1: "access_tokens (work s1)
             = filter (\<lambda>k. at_user_id k \<noteq> u_id u) (access_tokens (work s))
                 @ [new_access_token t1 (u_id u)]"
    and free1: "t1 \<notin> at_token ` set (filter (\<lambda>k. at_user_id k \<noteq> u_id u) (access_tokens (work s)))"
    and again: "filter (\<lambda>u. u_email u = ul_email user) (users (work s1)) = [u']"
    and same: "u_id u' = u_id u"
    by simp_all
  from login_user_success [OF assms(2)] obtain v v' where
    h2: "filter (\<lambda>u. u_email u = ul_email user) (users (work s1)) = [v]
         \<and> access_tokens (work s2)
             = filter (\<lambda>k. at_user_id k \<noteq> u_id v) (access_tokens (work s1))
                 @ [new_access_token t2 (u_id v)]
         \<and> t2 \<notin> at_token ` set (filter (\<lambda>k. at_user_id k \<noteq> u_id v)
                                   (access_tokens (work s1)))
         \<and> filter (\<lambda>u. u_email u = ul_email user) (users (work s2)) = [v']
         \<and> u_id v' = u_id v"
    by (elim exE)
  with again same have v: "u_id v = u_id u" by simp
  from h2 have
    rows2: "access_tokens (work s2)
             = filter (\<lambda>k. at_user_id k \<noteq> u_id u) (access_tokens (work s1))
                 @ [new_access_token t2 (u_id u)]"
    and free2: "t2 \<notin> at_token ` set (filter (\<lambda>k. at_user_id k \<noteq> u_id u) (access_tokens (work s1)))"
    unfolding v by simp_all
  define A where "A = filter (\<lambda>k. at_user_id k \<noteq> u_id u) (access_tokens (work s))"
  have rows1': "access_tokens (work s1) = A @ [new_access_token t1 (u_id u)]"
    unfolding rows1 A_def ..
  have keep: "filter (\<lambda>k. at_user_id k \<noteq> u_id u) A = A"
    unfolding A_def by simp
  have rows2': "access_tokens (work s2) = A @ [new_access_token t2 (u_id u)]"
    unfolding rows2 rows1' by (simp add: keep new_access_token_def)
  have free1': "t1 \<notin> at_token ` set A"
    using free1 unfolding A_def .
  have free2': "t2 \<notin> at_token ` set A"
    using free2 unfolding rows1' by (simp add: keep new_access_token_def)
  have n1: "filter (\<lambda>k. at_token k = t1) A = []"
    by (rule filter_key_absent [OF free1'])
  have n2: "filter (\<lambda>k. at_token k = t2) A = []"
    by (rule filter_key_absent [OF free2'])
  show "validate_token t1 s2 = Inl (HTTPException 401 ''Invalid token'')"
    using assms(3) by (simp add: validate_token_def rows2' n1 new_access_token_def)
  have v1: "validate_token t1 s1 = Inr (u_id u)"
    by (simp add: validate_token_def rows1' n1 new_access_token_def)
  have v2: "validate_token t2 s2 = Inr (u_id u)"
    by (simp add: validate_token_def rows2' n2 new_access_token_def)
  from v1 v2 show "validate_token t2 s2 = validate_token t1 s1" by simp
  from v2 show "\<exists>uid. validate_token t2 s2 = Inr uid" by blast
qed

lemma token_inv_fold:
  "token_inv s \<Longrightarrow> token_inv (fold (perform P) rqs s)"
  by (induction rqs arbitrary: s) (simp_all add: token_inv_perform)

lemma token_inv_empty: "token_inv (open_session empty_db now)"
  by (simp add: token_inv_def one_token_per_user_def open_session_def empty_db_def)

lemma login_user_active:
  assumes "filter (\<lambda>u. u_email u = ul_email user) (users (work s)) = [db_user]"
    and "checkpw P (ul_password user) (u_password db_user)" and "u_is_active db_user"
  shows "login_user P user s = create_access_token P (u_id db_user) s"
  using assms by (simp add: login_user_def split: prod.splits sum.splits)

lemma create_access_token_state:
  assumes "create_access_token P uid s = (Inr t, s')"
  shows "draws s' = Suc (draws s)" and "t = token_at P (draws s)"
proof -
  have free: "token_at P (draws s)
      \<notin> at_token ` set (filter (\<lambda>t. at_user_id t \<noteq> uid) (access_tokens (work s)))"
  proof
    assume "token_at P (draws s)
      \<in> at_token ` set (filter (\<lambda>t. at_user_id t \<noteq> uid) (access_tokens (work s)))"
    from create_access_token_collision [OF this] assms show False by simp
  qed
  from create_access_token_inserted [OF free] assms
  show "draws s' = Suc (draws s)" and "t = token_at P (draws s)" by auto
qed

text \<open>
  Every operation that changes the database keeps at most one AccessToken per user
  (\<open>token_inv_perform\<close>), and when a second login issues a token string that differs from
  the first login's, the first token validates no more (\<open>two_logins\<close>).
\<close>

text \<open>
  Claim C3. \<open>generate_token\<close> returns the same string at every call, so a second login
  deletes the token of the first and inserts the very same string again: the token of the
  first login still validates after the second, where the claim has 401. Here the stored
  password is the bcrypt hash of the password presented, the one pair \<open>bcrypt.checkpw\<close> is
  asked about.
\<close>

theorem second_login_reissues_same_token:
  "checkpw src_prims_bcrypt (ul_password ex_login) (u_password ex_user_bcrypt)
   \<and> fst (login_user src_prims_bcrypt ex_login (open_session ex_db_bcrypt 50)) = Inr src_token
   \<and> fst (login_user src_prims_bcrypt ex_login
            (snd (login_user src_prims_bcrypt ex_login (open_session ex_db_bcrypt 50))))
       = Inr src_token
   \<and> validate_token src_token
        (snd (login_user src_prims_bcrypt ex_login
          (snd (login_user src_prims_bcrypt ex_login (open_session ex_db_bcrypt 50)))))
       = Inr 7
   \<and> validate_token src_token
        (snd (login_user src_prims_bcrypt ex_login
          (snd (login_user src_prims_bcrypt ex_login (open_session ex_db_bcrypt 50)))))
       \<noteq> Inl (HTTPException 401 ''Invalid token'')"
proof -
  let ?P = "src_prims_bcrypt"
  let ?s0 = "open_session ex_db_bcrypt 50"
  obtain r1 s1 where l1: "login_user ?P ex_login ?s0 = (r1, s1)"
    by (cases "login_user ?P ex_login ?s0")
  obtain r2 s2 where l2: "login_user ?P ex_login s1 = (r2, s2)"
    by (cases "login_user ?P ex_login s1")
  have row0: "filter (\<lambda>u. u_email u = ul_email ex_login) (users (work ?s0)) = [ex_user_bcrypt]"
    by (simp add: open_session_def ex_db_bcrypt_def empty_db_def ex_login_def
          ex_user_bcrypt_def ex_user_def)
  have pw: "checkpw ?P (ul_password ex_login) (u_password ex_user_bcrypt)"
    by (simp add: src_prims_bcrypt_def src_prims_def ex_login_def ex_user_bcrypt_def)
  have act: "u_is_active ex_user_bcrypt" by (simp add: ex_user_bcrypt_def ex_user_def)
  have uid: "u_id ex_user_bcrypt = 7" by (simp add: ex_user_bcrypt_def ex_user_def)
  have tok: "token_at ?P n = src_token" for n
    by (simp add: src_prims_bcrypt_def src_prims_def)
  have none0: "access_tokens (work ?s0) = []"
    by (simp add: open_session_def ex_db_bcrypt_def empty_db_def)
  have c1: "login_user ?P ex_login ?s0 = create_access_token ?P 7 ?s0"
    using login_user_active [OF row0 pw act] uid by simp
  have free0: "token_at ?P (draws ?s0)
      \<notin> at_token ` set (filter (\<lambda>t. at_user_id t \<noteq> 7) (access_tokens (work ?s0)))"
    by (simp add: none0)
  have r1: "r1 = Inr src_token"
    using l1 create_access_token_inserted [OF free0] unfolding c1 tok by simp
  note ok1 = l1 [unfolded c1 r1]
  have users1: "users (work s1) = users (work ?s0)"
    by (rule create_access_token_success(3) [OF ok1])
  have rows1: "access_tokens (work s1) = [new_access_token src_token 7]"
    using create_access_token_success(1) [OF ok1] by (simp add: none0)
  have row1: "filter (\<lambda>u. u_email u = ul_email ex_login) (users (work s1)) = [ex_user_bcrypt]"
    unfolding users1 by (rule row0)
  have c2: "login_user ?P ex_login s1 = create_access_token ?P 7 s1"
    using login_user_active [OF row1 pw act] uid by simp
  have other1: "filter (\<lambda>t. at_user_id t \<noteq> 7) (access_tokens (work s1)) = []"
    by (simp add: rows1 new_access_token_def)
  have free1: "token_at ?P (draws s1)
      \<notin> at_token ` set (filter (\<lambda>t. at_user_id t \<noteq> 7) (access_tokens (work s1)))"
    unfolding other1 by simp
  have r2: "r2 = Inr src_token"
    using l2 create_access_token_inserted [OF free1] unfolding c2 tok by simp
  note ok2 = l2 [unfolded c2 r2]
  have rows2: "access_tokens (work s2) = [new_access_token src_token 7]"
    using create_access_token_success(1) [OF ok2] by (simp add: other1)
  have v: "validate_token src_token s2 = Inr 7"
    by (simp add: validate_token_def rows2 new_access_token_def)
  show ?thesis
    using pw v by (simp add: l1 l2 r1 r2)
qed

section \<open>The unique keys are kept\<close>

lemma store_ok_commit: "store_ok s \<Longrightarrow> store_ok (commit s)"
  by (simp add: store_ok_def commit_def)

lemma store_ok_commit_work: "keys_ok (work s) \<Longrightarrow> store_ok (commit s)"
  by (simp add: store_ok_def commit_def)

lemma store_ok_rollback: "store_ok s \<Longrightarrow> store_ok (rollback s)"
  by (simp add: store_ok_def rollback_def)

lemma store_ok_draws [simp]: "store_ok (s\<lparr>draws := n\<rparr>) = store_ok s"
  by (simp add: store_ok_def)

lemma store_ok_work: "store_ok s \<Longrightarrow> keys_ok d \<Longrightarrow> store_ok (s\<lparr>work := d\<rparr>)"
  by (simp add: store_ok_def)

lemma store_ok_workD: "store_ok s \<Longrightarrow> keys_ok (work s)"
  by (simp add: store_ok_def)

lemma keys_ok_insert_user: "keys_ok d \<Longrightarrow> insert_user r d = Inr d' \<Longrightarrow> keys_ok d'"
  by (auto simp: keys_ok_def insert_user_def split: if_splits)

lemma keys_ok_insert_email_token:
  "keys_ok d \<Longrightarrow> insert_email_token r d = Inr d' \<Longrightarrow> keys_ok d'"
  by (auto simp: keys_ok_def insert_email_token_def split: if_splits)

lemma keys_ok_insert_access_token:
  "keys_ok d \<Longrightarrow> insert_access_token r d = Inr d' \<Longrightarrow> keys_ok d'"
  by (auto simp: keys_ok_def insert_access_token_def split: if_splits)

lemma keys_ok_insert_game_session:
  "keys_ok d \<Longrightarrow> insert_game_session r d = Inr d' \<Longrightarrow> keys_ok d'"
  by (auto simp: keys_ok_def insert_game_session_def split: if_splits)

lemma keys_ok_filter_access_tokens:
  "keys_ok d \<Longrightarrow> keys_ok (d\<lparr>access_tokens := filter p (access_tokens d)\<rparr>)"
  by (simp add: keys_ok_def distinct_map_filter)

lemma keys_ok_filter_email_tokens:
  "keys_ok d \<Longrightarrow> keys_ok (d\<lparr>email_tokens := filter p (email_tokens d)\<rparr>)"
  by (simp add: keys_ok_def distinct_map_filter)

lemma keys_ok_filter_users:
  "keys_ok d \<Longrightarrow> keys_ok (d\<lparr>users := filter p (users d)\<rparr>)"
  by (simp add: keys_ok_def distinct_map_filter)

lemma keys_ok_update_users:
  assumes "keys_ok d" and "\<And>u. u_id (g u) = u_id u" and "\<And>u. u_email (g u) = u_email u"
  shows "keys_ok (d\<lparr>users := update_where p g (users d)\<rparr>)"
proof -
  have "map u_id (update_where p g (users d)) = map u_id (users d)"
    by (rule update_where_key) (simp add: assms(2))
  moreover have "map u_email (update_where p g (users d)) = map u_email (users d)"
    by (rule update_where_key) (simp add: assms(3))
  ultimately show ?thesis using assms(1) by (simp add: keys_ok_def)
qed

lemma keys_ok_update_game_sessions:
  assumes "keys_ok d" and "\<And>r. gs_id (g r) = gs_id r"
  shows "keys_ok (d\<lparr>game_sessions := update_where p g (game_sessions d)\<rparr>)"
proof -
  have "map gs_id (update_where p g (game_sessions d)) = map gs_id (game_sessions d)"
    by (rule update_where_key) (simp add: assms(2))
  then show ?thesis using assms(1) by (simp add: keys_ok_def)
qed

lemma keys_ok_update_user_rows:
  assumes "keys_ok d" and "update_user_rows user_id n d = Inr d'"
  shows "keys_ok d'"
proof -
  let ?rows = "update_where (\<lambda>u. u_id u = user_id) (set_values n) (users d)"
  from assms(2) have d': "d' = d\<lparr>users := ?rows\<rparr>"
    and ok: "uu_email n = None \<or> filter (\<lambda>u. u_id u = user_id) (users d) = []
             \<or> distinct (map u_email ?rows)"
    by (auto simp: update_user_rows_def Let_def split: if_splits)
  have ids: "map u_id ?rows = map u_id (users d)"
    by (rule update_where_key) (simp add: set_values_def)
  have "distinct (map u_email ?rows)"
    using ok
  proof (elim disjE)
    assume "uu_email n = None"
    then have "map u_email ?rows = map u_email (users d)"
      by (intro update_where_key) (simp add: set_values_def)
    with assms(1) show ?thesis by (simp add: keys_ok_def)
  next
    assume "filter (\<lambda>u. u_id u = user_id) (users d) = []"
    then have "\<forall>r\<in>set (users d). \<not> u_id r = user_id" by (simp add: filter_empty_conv)
    then have "?rows = users d" by (rule update_where_none)
    with assms(1) show ?thesis by (simp add: keys_ok_def)
  qed simp
  with ids assms(1) show ?thesis by (simp add: d' keys_ok_def)
qed

lemma keys_ok_update_email_token_rows:
  assumes "keys_ok d" and "update_email_token_rows email new_token now d = Inr d'"
  shows "keys_ok d'"
proof -
  let ?g = "\<lambda>r. r\<lparr>et_token := new_token, et_created_at := now\<rparr>"
  let ?rows = "update_where (\<lambda>r. et_email r = email) ?g (email_tokens d)"
  from assms(2) have d': "d' = d\<lparr>email_tokens := ?rows\<rparr>"
    and ok: "filter (\<lambda>r. et_email r = email) (email_tokens d) = []
             \<or> distinct (map et_token ?rows)"
    by (auto simp: update_email_token_rows_def Let_def split: if_splits)
  have emails: "map et_email ?rows = map et_email (email_tokens d)"
    by (rule update_where_key) simp
  have "distinct (map et_token ?rows)"
    using ok
  proof (elim disjE)
    assume "filter (\<lambda>r. et_email r = email) (email_tokens d) = []"
    then have "\<forall>r\<in>set (email_tokens d). \<not> et_email r = email" by (simp add: filter_empty_conv)
    then have "?rows = email_tokens d" by (rule update_where_none)
    with assms(1) show ?thesis by (simp add: keys_ok_def)
  qed simp
  with emails assms(1) show ?thesis by (simp add: d' keys_ok_def)
qed

lemma store_ok_logout: "store_ok s \<Longrightarrow> store_ok (logout_user user_id s)"
  unfolding logout_user_def
  by (rule store_ok_commit_work) (simp add: store_ok_def keys_ok_filter_access_tokens)

lemma store_ok_delete_email_tokens: "store_ok s \<Longrightarrow> store_ok (delete_email_tokens email s)"
  unfolding delete_email_tokens_def
  by (rule store_ok_commit_work) (simp add: store_ok_def keys_ok_filter_email_tokens)

lemma store_ok_create_access_token:
  assumes "store_ok s"
  shows "store_ok (snd (create_access_token P user_id s))"
proof -
  let ?s1 = "logout_user user_id s"
  have ok1: "store_ok ?s1" by (rule store_ok_logout [OF assms])
  show ?thesis
  proof (cases "insert_access_token (new_access_token (token_at P (draws ?s1)) user_id) (work ?s1)")
    case (Inl e)
    with ok1 show ?thesis
      by (simp add: create_access_token_def generate_token_def Let_def new_access_token_def)
  next
    case (Inr d)
    have "keys_ok d"
      by (rule keys_ok_insert_access_token [OF store_ok_workD [OF ok1] Inr])
    then have "store_ok (commit (?s1\<lparr>draws := Suc (draws ?s1), work := d\<rparr>))"
      by (intro store_ok_commit_work) simp
    with Inr show ?thesis
      by (simp add: create_access_token_def generate_token_def Let_def new_access_token_def)
  qed
qed

lemma store_ok_activate_user:
  assumes "store_ok s"
  shows "store_ok (snd (activate_user user_id s))"
proof -
  let ?s1 = "s\<lparr>work := (work s)\<lparr>users :=
      update_where (\<lambda>u. u_id u = user_id) (\<lambda>u. u\<lparr>u_is_active := True\<rparr>) (users (work s))\<rparr>\<rparr>"
  have "keys_ok (work ?s1)"
    using keys_ok_update_users [OF store_ok_workD [OF assms],
        of "\<lambda>u. u\<lparr>u_is_active := True\<rparr>" "\<lambda>u. u_id u = user_id"] by simp
  then have ok1: "store_ok ?s1" using assms by (simp add: store_ok_def)
  then have ok2: "store_ok (commit ?s1)" by (rule store_ok_commit)
  then have "store_ok (logout_user user_id (commit ?s1))" by (rule store_ok_logout)
  with ok1 ok2 show ?thesis
    by (simp add: activate_user_def Let_def split: sum.splits option.splits)
qed

lemma store_ok_deactivate_user:
  assumes "store_ok s"
  shows "store_ok (snd (deactivate_user user_id s))"
proof -
  let ?s0 = "logout_user user_id s"
  let ?s1 = "?s0\<lparr>work := (work ?s0)\<lparr>users :=
      update_where (\<lambda>u. u_id u = user_id) (\<lambda>u. u\<lparr>u_is_active := False\<rparr>) (users (work ?s0))\<rparr>\<rparr>"
  have ok0: "store_ok ?s0" by (rule store_ok_logout [OF assms])
  have "keys_ok (work ?s1)"
    using keys_ok_update_users [OF store_ok_workD [OF ok0],
        of "\<lambda>u. u\<lparr>u_is_active := False\<rparr>" "\<lambda>u. u_id u = user_id"] by simp
  then have ok1: "store_ok ?s1" using ok0 by (simp add: store_ok_def)
  then have ok2: "store_ok (commit ?s1)" by (rule store_ok_commit)
  with ok1 show ?thesis
    by (simp add: deactivate_user_def Let_def split: sum.splits option.splits)
qed

lemma store_ok_update_user:
  assumes "store_ok s"
  shows "store_ok (snd (update_user P user_id user s))"
proof (cases "update_user_rows user_id (nud P user) (work s)")
  case (Inl e)
  with assms show ?thesis by (simp add: update_user_def)
next
  case (Inr d)
  have "keys_ok d" by (rule keys_ok_update_user_rows [OF store_ok_workD [OF assms] Inr])
  then have ok1: "store_ok (s\<lparr>work := d\<rparr>)" by (rule store_ok_work [OF assms])
  then have ok2: "store_ok (commit (s\<lparr>work := d\<rparr>))" by (rule store_ok_commit)
  then have "store_ok (logout_user user_id (commit (s\<lparr>work := d\<rparr>)))" by (rule store_ok_logout)
  with ok1 ok2 Inr show ?thesis
    by (simp add: update_user_def Let_def split: sum.splits option.splits)
qed

lemma store_ok_hard_delete_user:
  assumes "store_ok s"
  shows "store_ok (snd (hard_delete_user user_id s))"
proof -
  let ?s1 = "logout_user user_id s"
  let ?s2 = "?s1\<lparr>work := (work ?s1)\<lparr>users :=
                filter (\<lambda>u. u_id u \<noteq> user_id) (users (work ?s1))\<rparr>\<rparr>"
  have ok1: "store_ok ?s1" by (rule store_ok_logout [OF assms])
  have "keys_ok (work ?s2)"
    using keys_ok_filter_users [OF store_ok_workD [OF ok1], of "\<lambda>u. u_id u \<noteq> user_id"] by simp
  then have ok2: "store_ok ?s2" using ok1 by (simp add: store_ok_def)
  then have "store_ok (delete_email_tokens email (commit ?s2))" for email
    by (intro store_ok_delete_email_tokens store_ok_commit)
  with ok2 assms show ?thesis
    by (simp add: hard_delete_user_def Let_def split: sum.splits option.splits)
qed

lemma store_ok_post_email_token:
  assumes "store_ok s"
  shows "store_ok (snd (post_email_token P user s))"
proof (cases "insert_email_token
                (new_email_token P user (token_at P (draws s)) (clock s)) (work s)")
  case (Inl e)
  with assms show ?thesis
    by (simp add: post_email_token_def generate_token_def new_email_token_def hash_password_def)
next
  case (Inr d)
  have "keys_ok d" by (rule keys_ok_insert_email_token [OF store_ok_workD [OF assms] Inr])
  then have "store_ok (commit (s\<lparr>draws := Suc (draws s), work := d\<rparr>))"
    by (intro store_ok_commit_work) simp
  with Inr show ?thesis
    by (simp add: post_email_token_def generate_token_def new_email_token_def hash_password_def)
qed

lemma store_ok_create_email_token:
  assumes "store_ok s"
  shows "store_ok (snd (create_email_token P user s))"
proof (cases "validate_email (uc_email user)
              \<and> check_existing_user (uc_email user) s = Inr False")
  case False
  with assms show ?thesis
    by (auto simp: create_email_token_def split: sum.splits bool.splits)
next
  case True
  obtain res s1 where post: "post_email_token P user s = (res, s1)"
    by (cases "post_email_token P user s")
  have ok1: "store_ok s1"
    using store_ok_post_email_token [OF assms, of P user] post by simp
  then have "store_ok (delete_email_tokens (uc_email user) (rollback s1))"
    by (intro store_ok_delete_email_tokens store_ok_rollback)
  then have "store_ok (snd (post_email_token P user
               (delete_email_tokens (uc_email user) (rollback s1))))"
    by (rule store_ok_post_email_token)
  with True post ok1 show ?thesis
    by (simp add: create_email_token_def split: sum.splits error.splits)
qed

lemma store_ok_validate_email_token:
  assumes "store_ok s"
  shows "store_ok (snd (validate_email_token token s))"
  using assms store_ok_delete_email_tokens [OF assms]
  by (simp add: validate_email_token_def split: sum.splits option.splits)

lemma store_ok_update_email_token:
  assumes "store_ok s"
  shows "store_ok (snd (update_email_token P email s))"
proof (cases "update_email_token_rows email (token_at P (draws s)) (clock s) (work s)")
  case (Inl e)
  with assms show ?thesis
    by (simp add: update_email_token_def generate_token_def split: sum.splits option.splits)
next
  case (Inr d)
  have "keys_ok d"
    by (rule keys_ok_update_email_token_rows [OF store_ok_workD [OF assms] Inr])
  then have "store_ok (commit (s\<lparr>draws := Suc (draws s), work := d\<rparr>))"
    by (intro store_ok_commit_work) simp
  with assms Inr show ?thesis
    by (simp add: update_email_token_def generate_token_def split: sum.splits option.splits)
qed

lemma store_ok_create_user:
  assumes "store_ok s"
  shows "store_ok (snd (create_user P token s))"
proof -
  obtain e s1 where v: "validate_email_token token s = (Inl e, s1)"
    using validate_email_token_raises by blast
  with store_ok_validate_email_token [OF assms, of token] show ?thesis
    by (simp add: create_user_def)
qed

lemma store_ok_reset_password:
  assumes "store_ok s"
  shows "store_ok (snd (reset_password P token password s))"
proof -
  obtain e s1 where v: "validate_email_token token s = (Inl e, s1)"
    using validate_email_token_raises by blast
  with store_ok_validate_email_token [OF assms, of token] show ?thesis
    by (simp add: reset_password_def)
qed

lemma store_ok_login_user:
  assumes "store_ok s"
  shows "store_ok (snd (login_user P user s))"
proof -
  have act: "store_ok (snd (activate_user uid s))" for uid
    by (rule store_ok_activate_user [OF assms])
  have tok: "store_ok (snd (create_access_token P uid s1))" if "store_ok s1" for uid s1
    by (rule store_ok_create_access_token [OF that])
  show ?thesis
    using assms act tok
    by (auto simp: login_user_def split: sum.splits option.splits prod.splits if_splits)
       (metis snd_conv)+
qed

lemma store_ok_save_game_route:
  assumes "store_ok s"
  shows "store_ok (snd (save_game_route P data user_id s))"
proof (cases "gsi_id (sg_game_session data)")
  case None
  show ?thesis
  proof (cases "insert_game_session
      \<lparr>gs_id = uuid_at P (draws s), gs_user_id = user_id, gs_last_image = sg_image data,
         gs_protagonist_name = gsi_protagonist_name (sg_game_session data),
         gs_session_name = gsi_session_name (sg_game_session data),
         gs_inventory = gsi_inventory (sg_game_session data),
         gs_stories = gsi_scenes (sg_game_session data),
         gs_updated_at = clock s\<rparr> (work s)")
    case (Inl e)
    with None assms show ?thesis by (simp add: save_game_route_def uuid4_def)
  next
    case (Inr d)
    have "keys_ok d" by (rule keys_ok_insert_game_session [OF store_ok_workD [OF assms] Inr])
    then have "store_ok (commit (s\<lparr>draws := Suc (draws s), work := d\<rparr>))"
      by (intro store_ok_commit_work) simp
    with None Inr show ?thesis by (simp add: save_game_route_def uuid4_def)
  qed
next
  case (Some game_id)
  have "store_ok (commit (s\<lparr>work := (work s)\<lparr>game_sessions :=
          update_where p g (game_sessions (work s))\<rparr>\<rparr>))" if "\<And>r. gs_id (g r) = gs_id r" for p g
    using keys_ok_update_game_sessions [OF store_ok_workD [OF assms], of g p] that
    by (intro store_ok_commit_work) simp
  with Some assms show ?thesis
    by (simp add: save_game_route_def Let_def split: sum.splits option.splits)
qed

lemma store_ok_perform: "store_ok s \<Longrightarrow> store_ok (perform P rq s)"
  by (cases rq)
     (simp_all add: store_ok_create_email_token store_ok_create_user store_ok_login_user
        store_ok_logout store_ok_update_user store_ok_activate_user store_ok_deactivate_user
        store_ok_hard_delete_user store_ok_update_email_token store_ok_reset_password
        store_ok_save_game_route)

lemma store_ok_fold: "store_ok s \<Longrightarrow> store_ok (fold (perform P) rqs s)"
  by (induction rqs arbitrary: s) (simp_all add: store_ok_perform)

section \<open>The email pattern\<close>

text \<open>\<open>validate_email\<close> accepts exactly the strings that decompose as the pattern says.\<close>

lemma at_not_local: "\<not> local_char (CHR ''@'')"
  by (simp add: local_char_def is_alpha_def is_digit_def)

lemma dot_not_alpha: "\<not> is_alpha (CHR ''.'')"
  by (simp add: is_alpha_def)

lemma lf_not_alpha: "\<not> is_alpha (CHR 0x0A)"
  by (simp add: is_alpha_def)

lemma split_at_first:
  assumes "x \<notin> set l"
  shows "takeWhile (\<lambda>c. c \<noteq> x) (l @ x # r) = l" and "dropWhile (\<lambda>c. c \<noteq> x) (l @ x # r) = x # r"
  using assms by (induction l) auto

lemma split_exists:
  assumes "x \<in> set xs"
  shows "xs = takeWhile (\<lambda>c. c \<noteq> x) xs @ x # drop 1 (dropWhile (\<lambda>c. c \<noteq> x) xs)"
  using assms by (induction xs) auto

lemma strip_last:
  "xs = (if xs \<noteq> [] \<and> last xs = c then butlast xs else xs)
          @ (if xs \<noteq> [] \<and> last xs = c then [c] else [])"
proof (cases "xs \<noteq> [] \<and> last xs = c")
  case True
  then have "butlast xs @ [c] = xs" using append_butlast_last_id [of xs] by simp
  with True show ?thesis by simp
next
  case False
  then show ?thesis by auto
qed

lemma email_pattern_imp_validate:
  assumes "email_pattern email"
  shows "validate_email email"
proof -
  from assms obtain l d t nl where e: "email = l @ ''@'' @ d @ ''.'' @ t @ nl"
    and l: "l \<noteq> []" "list_all local_char l" and d: "d \<noteq> []" "list_all domain_char d"
    and t: "2 \<le> length t" "list_all is_alpha t" and nl: "nl = [] \<or> nl = [CHR 0x0A]"
    unfolding email_pattern_def by blast
  have at_l: "CHR ''@'' \<notin> set l"
    using l(2) at_not_local by (auto simp: list_all_iff)
  have dot_t: "CHR ''.'' \<notin> set (rev t)"
    using t(2) dot_not_alpha by (auto simp: list_all_iff)
  have e': "email = l @ CHR ''@'' # (d @ ''.'' @ t @ nl)" using e by simp
  have local: "takeWhile (\<lambda>c. c \<noteq> CHR ''@'') email = l"
    unfolding e' by (rule split_at_first(1) [OF at_l])
  have rest: "drop 1 (dropWhile (\<lambda>c. c \<noteq> CHR ''@'') email) = d @ ''.'' @ t @ nl"
    unfolding e' by (simp add: split_at_first(2) [OF at_l])
  have t_ne: "t \<noteq> []" using t(1) by auto
  have last_t: "last t \<noteq> CHR 0x0A"
  proof
    assume "last t = CHR 0x0A"
    moreover have "last t \<in> set t" using t_ne by simp
    ultimately show False using t(2) lf_not_alpha by (auto simp: list_all_iff)
  qed
  have host: "(if d @ ''.'' @ t @ nl \<noteq> [] \<and> last (d @ ''.'' @ t @ nl) = CHR 0x0A
               then butlast (d @ ''.'' @ t @ nl) else d @ ''.'' @ t @ nl) = d @ ''.'' @ t"
    using nl t_ne last_t by (auto simp: butlast_append)
  have rh: "rev (d @ ''.'' @ t) = rev t @ CHR ''.'' # rev d" by simp
  have tld: "rev (takeWhile (\<lambda>c. c \<noteq> CHR ''.'') (rev (d @ ''.'' @ t))) = t"
    unfolding rh by (simp add: split_at_first(1) [OF dot_t])
  have dom: "rev (drop 1 (dropWhile (\<lambda>c. c \<noteq> CHR ''.'') (rev (d @ ''.'' @ t)))) = d"
    unfolding rh by (simp add: split_at_first(2) [OF dot_t])
  show ?thesis
    unfolding validate_email_def Let_def local rest host tld dom
    using l d t e by simp
qed

lemma validate_imp_email_pattern:
  assumes "validate_email email"
  shows "email_pattern email"
proof -
  define l where "l = takeWhile (\<lambda>c. c \<noteq> CHR ''@'') email"
  define rest where "rest = drop 1 (dropWhile (\<lambda>c. c \<noteq> CHR ''@'') email)"
  define host where "host = (if rest \<noteq> [] \<and> last rest = CHR 0x0A then butlast rest else rest)"
  define nl where "nl = (if rest \<noteq> [] \<and> last rest = CHR 0x0A then [CHR 0x0A] else [])"
  define t where "t = rev (takeWhile (\<lambda>c. c \<noteq> CHR ''.'') (rev host))"
  define d where "d = rev (drop 1 (dropWhile (\<lambda>c. c \<noteq> CHR ''.'') (rev host)))"
  from assms have v: "CHR ''@'' \<in> set email \<and> l \<noteq> [] \<and> list_all local_char l
      \<and> CHR ''.'' \<in> set host \<and> d \<noteq> [] \<and> list_all domain_char d
      \<and> 2 \<le> length t \<and> list_all is_alpha t"
    unfolding validate_email_def Let_def l_def rest_def host_def t_def d_def .
  have e: "email = l @ CHR ''@'' # rest"
    unfolding l_def rest_def using v by (intro split_exists) simp
  have r: "rest = host @ nl"
    unfolding host_def nl_def by (rule strip_last)
  have "CHR ''.'' \<in> set (rev host)" using v by simp
  from split_exists [OF this]
  have "rev host = rev t @ CHR ''.'' # rev d"
    unfolding t_def d_def by simp
  then have "rev (rev host) = rev (rev t @ CHR ''.'' # rev d)" by (rule arg_cong)
  then have h: "host = d @ CHR ''.'' # t" by simp
  have whole: "email = l @ ''@'' @ d @ ''.'' @ t @ nl"
    unfolding e r h by simp
  have "nl = [] \<or> nl = [CHR 0x0A]" unfolding nl_def by simp
  with whole v show ?thesis
    unfolding email_pattern_def by blast
qed

lemma validate_email_iff: "validate_email email \<longleftrightarrow> email_pattern email"
  using email_pattern_imp_validate validate_imp_email_pattern by blast

end
